theory Spec2Isabelle
  imports Complex_Main "HOL-Library.Char_ord" "HOL-Library.List_Lexorder"
    "HOL-Library.Product_Lexorder"
begin

section \<open>Foldseek k-NN graph construction (foldseek\_umap.py)\<close>

text \<open>
  A shallow embedding of \<^verbatim>\<open>main\<close> of \<^verbatim>\<open>src/foldseek_umap.py\<close>, from the data frame
  that \<^verbatim>\<open>pd.read_csv\<close> and \<^verbatim>\<open>pd.to_numeric\<close> deliver (lines 45-54) to the table
  handed to \<^verbatim>\<open>to_csv\<close> (line 130).

  Modelling decisions.
  \<^item> A floating-point value that is not NaN is an \<open>fl\<close>: minus infinity, a finite
    number or plus infinity. NaN (pandas' null) is \<open>None\<close> of \<open>fl option\<close>.
    Finite numbers are exact reals: rounding to float64 and float32 is not modelled.
  \<^item> Identifiers are strings, compared as Python compares \<^verbatim>\<open>str\<close>: lexicographically
    by character code. The \<^verbatim>\<open>query\<close> and \<^verbatim>\<open>target\<close> cells are taken to be present.
  \<^item> The data frame is its number of columns together with its rows; a column that the
    file does not have is not looked at, whatever the row record holds there.
  \<^item> \<^verbatim>\<open>indices\<close> holds mathematical integers (the source stores \<^verbatim>\<open>int32\<close>; more than
    \<open>2^31\<close> nodes are not considered).
  \<^item> Every exception the source can raise on this path is a value of \<open>error\<close>;
    running out of memory is not among them: an array whose size numpy accepts is
    taken to be allocated.
  \<^item> The UMAP call is a parameter of the model.
\<close>

subsection \<open>Floating-point values\<close>

datatype fl = NegInf | Fin real | PosInf

instantiation fl :: linorder
begin

fun less_eq_fl :: "fl \<Rightarrow> fl \<Rightarrow> bool" where
  "less_eq_fl NegInf y = True"
| "less_eq_fl (Fin a) NegInf = False"
| "less_eq_fl (Fin a) (Fin b) = (a \<le> b)"
| "less_eq_fl (Fin a) PosInf = True"
| "less_eq_fl PosInf NegInf = False"
| "less_eq_fl PosInf (Fin b) = False"
| "less_eq_fl PosInf PosInf = True"

definition less_fl :: "fl \<Rightarrow> fl \<Rightarrow> bool" where
  "less_fl x y \<longleftrightarrow> x \<le> y \<and> \<not> y \<le> x"

instance
proof
  fix x y z :: fl
  show "(x < y) = (x \<le> y \<and> \<not> y \<le> x)"
    by (simp add: less_fl_def)
  show "x \<le> x"
    by (cases x) simp_all
  show "x \<le> y \<Longrightarrow> y \<le> z \<Longrightarrow> x \<le> z"
    by (cases x; cases y; cases z) simp_all
  show "x \<le> y \<Longrightarrow> y \<le> x \<Longrightarrow> x = y"
    by (cases x; cases y) simp_all
  show "x \<le> y \<or> y \<le> x"
    by (cases x; cases y) auto
qed

end

text \<open>\<^verbatim>\<open>x / 100.0\<close>, \<^verbatim>\<open>1.0 - x\<close> and \<^verbatim>\<open>-x\<close> on values that are not NaN.\<close>

fun div100 :: "fl \<Rightarrow> fl" where
  "div100 NegInf = NegInf"
| "div100 (Fin a) = Fin (a / 100)"
| "div100 PosInf = PosInf"

fun one_minus :: "fl \<Rightarrow> fl" where
  "one_minus NegInf = PosInf"
| "one_minus (Fin a) = Fin (1 - a)"
| "one_minus PosInf = NegInf"

fun fneg :: "fl \<Rightarrow> fl" where
  "fneg NegInf = PosInf"
| "fneg (Fin a) = Fin (- a)"
| "fneg PosInf = NegInf"

text \<open>\<^verbatim>\<open>np.clip(x, lo, hi)\<close> is \<^verbatim>\<open>minimum(maximum(x, lo), hi)\<close>.\<close>

definition clip :: "fl \<Rightarrow> fl \<Rightarrow> fl \<Rightarrow> fl" where
  "clip x lo hi = min (max x lo) hi"

subsection \<open>Records of the data frame\<close>

datatype error =
    AssertionError
  | NoObjectsToConcatenate
  | NegativeDimensions
  | IndexError
  | KeyError
  | CannotConvertNaN
  | ArrayTooBig
  | ShapeMismatch
  | LengthMismatch
  | EmbeddingFailed

record edge_record =
  query :: string
  target :: string
  evalue :: "fl option"
  score :: "fl option"
  alntmscore :: "fl option"

record resolved_edge = edge_record +
  tm :: fl

record args =
  k :: int
  umap_n_neighbors :: int
  min_tm :: "fl option"
  seed :: int
  out_prefix :: string

subsection \<open>Similarity resolution (lines 56-74)\<close>

text \<open>
  Column names are given by position (lines 46-49): with eight or more columns the
  frame has \<^verbatim>\<open>alntmscore\<close>; with fewer, \<^verbatim>\<open>score\<close> is there from seven columns on and
  \<^verbatim>\<open>evalue\<close> from six.
\<close>

definition has_alntmscore :: "nat \<Rightarrow> bool" where
  "has_alntmscore ncols \<longleftrightarrow> 8 \<le> ncols"

definition has_score :: "nat \<Rightarrow> bool" where
  "has_score ncols \<longleftrightarrow> 7 \<le> ncols"

definition has_evalue :: "nat \<Rightarrow> bool" where
  "has_evalue ncols \<longleftrightarrow> 6 \<le> ncols"

text \<open>\<^verbatim>\<open>ev.where((ev >= 0.0) & (ev <= 1.0))\<close>: a comparison with NaN is false.\<close>

definition ev_valid :: "fl option \<Rightarrow> fl option" where
  "ev_valid ev =
     (case ev of
        None \<Rightarrow> None
      | Some v \<Rightarrow> if Fin 0 \<le> v \<and> v \<le> Fin 1 then Some v else None)"

text \<open>The candidates of one row, in the order they are appended (lines 61-69).\<close>

definition candidates :: "nat \<Rightarrow> 'a edge_record_scheme \<Rightarrow> fl option list" where
  "candidates ncols r =
     (if has_score ncols then [map_option div100 (score r)] else []) @
     (if has_evalue ncols then [ev_valid (evalue r)] else [])"

text \<open>\<^verbatim>\<open>max(axis=1)\<close> skips NaN and is NaN on a row that holds nothing else.\<close>

fun nanmax :: "fl option \<Rightarrow> fl option \<Rightarrow> fl option" where
  "nanmax None y = y"
| "nanmax (Some a) None = Some a"
| "nanmax (Some a) (Some b) = Some (max a b)"

definition row_max :: "fl option list \<Rightarrow> fl option" where
  "row_max cs = foldr nanmax cs None"

text \<open>
  The \<^verbatim>\<open>tm\<close> column. The choice between \<^verbatim>\<open>alntmscore\<close> and the candidates is made
  once, on the columns of the frame. \<^verbatim>\<open>pd.concat\<close> of an empty list raises.
\<close>

definition tm_column :: "nat \<Rightarrow> edge_record list \<Rightarrow> error + fl option list" where
  "tm_column ncols df =
     (if has_alntmscore ncols then Inr (map alntmscore df)
      else if \<not> has_score ncols \<and> \<not> has_evalue ncols then Inl NoObjectsToConcatenate
      else Inr (map (\<lambda>r. row_max (candidates ncols r)) df))"

text \<open>\<^verbatim>\<open>df["tm"] = tm; df = df.dropna(subset=["tm"])\<close>: rows keep their order.\<close>

fun dropna :: "edge_record list \<Rightarrow> fl option list \<Rightarrow> resolved_edge list" where
  "dropna (r # rs) (Some t # ts) = edge_record.extend r \<lparr>tm = t\<rparr> # dropna rs ts"
| "dropna (r # rs) (None # ts) = dropna rs ts"
| "dropna rs ts = []"

definition resolve :: "nat \<Rightarrow> edge_record list \<Rightarrow> error + resolved_edge list" where
  "resolve ncols df =
     (case tm_column ncols df of
        Inl e \<Rightarrow> Inl e
      | Inr tms \<Rightarrow> Inr (dropna df tms))"

subsection \<open>Node index (lines 77-79)\<close>

text \<open>\<^verbatim>\<open>sorted(set(df["query"]) | set(df["target"]))\<close>\<close>

definition all_ids :: "'a edge_record_scheme list \<Rightarrow> string list" where
  "all_ids df = sort (remdups (map query df @ map target df))"

text \<open>\<^verbatim>\<open>{sid: i for i, sid in enumerate(all_ids)}\<close>: a later pair overwrites an earlier one.\<close>

definition id2ix :: "string list \<Rightarrow> (string \<rightharpoonup> nat)" where
  "id2ix ids = fold (\<lambda>(i, sid) m. m(sid \<mapsto> i)) (List.enumerate 0 ids) Map.empty"

subsection \<open>Edge filter and top-K selection (lines 82-88)\<close>

definition remove_self :: "'a edge_record_scheme list \<Rightarrow> 'a edge_record_scheme list" where
  "remove_self df = filter (\<lambda>e. query e \<noteq> target e) df"

text \<open>\<^verbatim>\<open>if min_tm > 0: df = df[df["tm"] >= min_tm]\<close>; a NaN threshold compares false.\<close>

definition apply_min_tm :: "fl option \<Rightarrow> resolved_edge list \<Rightarrow> resolved_edge list" where
  "apply_min_tm m df =
     (case m of
        None \<Rightarrow> df
      | Some v \<Rightarrow> if Fin 0 < v then filter (\<lambda>e. v \<le> tm e) df else df)"

text \<open>
  \<^verbatim>\<open>df.sort_values(["query", "tm"], ascending=[True, False])\<close>. A sort on several
  columns is pandas' lexsort, which is stable: rows with equal keys keep their order.
  \<open>sort_key\<close> is the stable insertion sort of the list library; descending \<^verbatim>\<open>tm\<close>
  is ascending \<open>fneg tm\<close>.
\<close>

definition sort_values :: "resolved_edge list \<Rightarrow> resolved_edge list" where
  "sort_values df = sort_key (\<lambda>e. (query e, fneg (tm e))) df"

text \<open>
  Python's bound of a slice on a sequence of length \<open>L\<close>: a negative bound counts from
  the end, and both are cut to the sequence.
\<close>

definition py_bound :: "nat \<Rightarrow> int \<Rightarrow> nat" where
  "py_bound L v = (if v < 0 then nat (max (v + int L) 0) else min (nat v) L)"

text \<open>
  \<^verbatim>\<open>df.groupby("query", sort=False).head(K)\<close>: a row stays when its position inside its
  group lies in the slice \<^verbatim>\<open>[:K]\<close> of the group; the rows that stay keep their order.
  \<open>seen q\<close> counts the rows of group \<open>q\<close> already passed.
\<close>

fun head_rows ::
  "(string \<Rightarrow> nat) \<Rightarrow> (string \<Rightarrow> nat) \<Rightarrow> 'a edge_record_scheme list \<Rightarrow> 'a edge_record_scheme list"
where
  "head_rows limit seen [] = []"
| "head_rows limit seen (e # es) =
     (if seen (query e) < limit (query e) then [e] else []) @
     head_rows limit (seen(query e := Suc (seen (query e)))) es"

definition group_rows :: "string \<Rightarrow> 'a edge_record_scheme list \<Rightarrow> 'a edge_record_scheme list" where
  "group_rows q df = filter (\<lambda>e. query e = q) df"

definition groupby_head :: "int \<Rightarrow> 'a edge_record_scheme list \<Rightarrow> 'a edge_record_scheme list" where
  "groupby_head K df =
     head_rows (\<lambda>q. py_bound (length (group_rows q df)) K) (\<lambda>q. 0) df"

text \<open>
  Iterating \<^verbatim>\<open>df.groupby("query", sort=False)\<close>: one pair per query, in the order in
  which the queries first appear, each with its rows in frame order.
\<close>

fun first_seen :: "'a list \<Rightarrow> 'a list \<Rightarrow> 'a list" where
  "first_seen seen [] = []"
| "first_seen seen (x # xs) =
     (if x \<in> set seen then first_seen seen xs else x # first_seen (x # seen) xs)"

definition groupby_query ::
  "'a edge_record_scheme list \<Rightarrow> (string \<times> 'a edge_record_scheme list) list" where
  "groupby_query df = map (\<lambda>q. (q, group_rows q df)) (first_seen [] (map query df))"

subsection \<open>Neighbor graph assembly (lines 92-108)\<close>

record graph =
  indices :: "int list list"
  dists :: "fl list list"

text \<open>
  \<^verbatim>\<open>np.full((N, K + 1), v)\<close> with a four-byte element type (\<^verbatim>\<open>int32\<close>, \<^verbatim>\<open>float32\<close>).
  numpy raises on a negative dimension, and on a shape whose size in bytes, the
  dimensions that are zero left out of the product, does not fit a signed 64-bit
  integer.
\<close>

definition max_intp :: int where
  "max_intp = 2 ^ 63 - 1"

definition too_big :: "nat \<Rightarrow> int \<Rightarrow> bool" where
  "too_big N W \<longleftrightarrow> max_intp < 4 * (if N = 0 then 1 else int N) * (if W = 0 then 1 else W)"

definition np_full :: "nat \<Rightarrow> int \<Rightarrow> 'a \<Rightarrow> error + 'a list list" where
  "np_full N W v =
     (if W < 0 then Inl NegativeDimensions
      else if too_big N W then Inl ArrayTooBig
      else Inr (replicate N (replicate (nat W) v)))"

text \<open>\<^verbatim>\<open>a[i, j] = v\<close> for indices that are not negative.\<close>

definition set_cell :: "'a list list \<Rightarrow> nat \<Rightarrow> nat \<Rightarrow> 'a \<Rightarrow> error + 'a list list" where
  "set_cell a i j v =
     (if i < length a \<and> j < length (a ! i) then Inr (a[i := (a ! i)[j := v]])
      else Inl IndexError)"

text \<open>The loop of lines 96-98 over \<^verbatim>\<open>range(N)\<close>.\<close>

fun set_self :: "nat list \<Rightarrow> graph \<Rightarrow> error + graph" where
  "set_self [] g = Inr g"
| "set_self (i # rest) g =
     (case set_cell (indices g) i 0 (int i) of
        Inl e \<Rightarrow> Inl e
      | Inr ind \<Rightarrow>
          (case set_cell (dists g) i 0 (Fin 0) of
             Inl e \<Rightarrow> Inl e
           | Inr ds \<Rightarrow> set_self rest \<lparr>indices = ind, dists = ds\<rparr>))"

text \<open>
  \<^verbatim>\<open>row[lo:hi] = vals\<close> on a one-dimensional array: the lengths must agree, except that
  a single value is broadcast over the slice.
\<close>

definition slice_assign :: "'a list \<Rightarrow> int \<Rightarrow> int \<Rightarrow> 'a list \<Rightarrow> error + 'a list" where
  "slice_assign row lo hi vals =
     (let lo' = py_bound (length row) lo;
          hi' = py_bound (length row) hi;
          m = hi' - lo'
      in if length vals = m then Inr (take lo' row @ vals @ drop (lo' + m) row)
         else if length vals = 1 then Inr (take lo' row @ replicate m (hd vals) @ drop (lo' + m) row)
         else Inl ShapeMismatch)"

text \<open>\<^verbatim>\<open>xs[:n]\<close>\<close>

definition py_take :: "'a list \<Rightarrow> int \<Rightarrow> 'a list" where
  "py_take xs n = take (py_bound (length xs) n) xs"

text \<open>
  \<^verbatim>\<open>sub["target"].map(id2ix).to_numpy(dtype=np.int32)\<close>: a target that is not a key
  maps to NaN, which the conversion to integers refuses.
\<close>

fun map_targets :: "(string \<rightharpoonup> nat) \<Rightarrow> 'a edge_record_scheme list \<Rightarrow> error + int list" where
  "map_targets ix [] = Inr []"
| "map_targets ix (e # es) =
     (case ix (target e) of
        None \<Rightarrow> Inl CannotConvertNaN
      | Some j \<Rightarrow>
          (case map_targets ix es of
             Inl err \<Rightarrow> Inl err
           | Inr js \<Rightarrow> Inr (int j # js)))"

text \<open>\<^verbatim>\<open>1.0 - np.clip(tm, 0.0, 1.0)\<close>\<close>

definition dist_of :: "fl \<Rightarrow> fl" where
  "dist_of t = one_minus (clip t (Fin 0) (Fin 1))"

text \<open>The body of the loop of lines 101-108 for one group.\<close>

definition fill_group ::
  "int \<Rightarrow> (string \<rightharpoonup> nat) \<Rightarrow> string \<times> resolved_edge list \<Rightarrow> graph \<Rightarrow> error + graph" where
  "fill_group K ix grp g =
     (case ix (fst grp) of
        None \<Rightarrow> Inl KeyError
      | Some i \<Rightarrow>
          (case map_targets ix (snd grp) of
             Inl e \<Rightarrow> Inl e
           | Inr js \<Rightarrow>
               (let ds = map (\<lambda>e. dist_of (tm e)) (snd grp);
                    n = min K (int (length js))
                in if \<not> (i < length (indices g) \<and> i < length (dists g)) then Inl IndexError
                   else
                     (case slice_assign (indices g ! i) 1 (1 + n) (py_take js n) of
                        Inl e \<Rightarrow> Inl e
                      | Inr ri \<Rightarrow>
                          (case slice_assign (dists g ! i) 1 (1 + n) (py_take ds n) of
                             Inl e \<Rightarrow> Inl e
                           | Inr rd \<Rightarrow>
                               Inr \<lparr>indices = (indices g)[i := ri],
                                    dists = (dists g)[i := rd]\<rparr>)))))"

fun fill_neighbors ::
  "int \<Rightarrow> (string \<rightharpoonup> nat) \<Rightarrow> (string \<times> resolved_edge list) list \<Rightarrow> graph \<Rightarrow> error + graph"
where
  "fill_neighbors K ix [] g = Inr g"
| "fill_neighbors K ix (grp # rest) g =
     (case fill_group K ix grp g of
        Inl e \<Rightarrow> Inl e
      | Inr g' \<Rightarrow> fill_neighbors K ix rest g')"

text \<open>Lines 92-98: both arrays filled with the sentinels, then column 0 of every row.\<close>

definition init_graph :: "int \<Rightarrow> nat \<Rightarrow> error + graph" where
  "init_graph K N =
     (case np_full N (K + 1) (- 1) of
        Inl e \<Rightarrow> Inl e
      | Inr ind \<Rightarrow>
          (case np_full N (K + 1) PosInf of
             Inl e \<Rightarrow> Inl e
           | Inr ds \<Rightarrow> set_self [0..<N] \<lparr>indices = ind, dists = ds\<rparr>))"

definition build_graph ::
  "int \<Rightarrow> nat \<Rightarrow> (string \<rightharpoonup> nat) \<Rightarrow> resolved_edge list \<Rightarrow> error + graph" where
  "build_graph K N ix df =
     (case init_graph K N of
        Inl e \<Rightarrow> Inl e
      | Inr g \<Rightarrow> fill_neighbors K ix (groupby_query df) g)"

subsection \<open>The pipeline up to the embedding call (lines 30-108)\<close>

definition filter_edges :: "fl option \<Rightarrow> resolved_edge list \<Rightarrow> resolved_edge list" where
  "filter_edges m df = apply_min_tm m (remove_self df)"

definition top_k :: "args \<Rightarrow> resolved_edge list \<Rightarrow> resolved_edge list" where
  "top_k a df = groupby_head (k a) (sort_values (filter_edges (min_tm a) df))"

definition assemble :: "args \<Rightarrow> resolved_edge list \<Rightarrow> error + string list \<times> graph" where
  "assemble a df =
     (let ids = all_ids df;
          ix = id2ix ids;
          N = length ids
      in case build_graph (k a) N ix (top_k a df) of
           Inl e \<Rightarrow> Inl e
         | Inr g \<Rightarrow> Inr (ids, g))"

definition prepare :: "args \<Rightarrow> nat \<Rightarrow> edge_record list \<Rightarrow> error + string list \<times> graph" where
  "prepare a ncols df =
     (if \<not> umap_n_neighbors a \<le> k a + 1 then Inl AssertionError
      else
        (case resolve ncols df of
           Inl e \<Rightarrow> Inl e
         | Inr rdf \<Rightarrow> assemble a rdf))"

subsection \<open>Embedding call and output table (lines 111-131)\<close>

record 'c coords_file =
  path :: string
  sep :: string
  header :: "string list"
  body :: "(string \<times> 'c \<times> 'c) list"

text \<open>
  \<^verbatim>\<open>pd.DataFrame({"id": all_ids, "umap_x": Y[:, 0], "umap_y": Y[:, 1]})\<close> raises when the
  columns differ in length; \<^verbatim>\<open>to_csv(coords_path, sep="\t", index=False)\<close> writes the
  column names and then the rows in frame order.
\<close>

definition coords_frame ::
  "string \<Rightarrow> string list \<Rightarrow> ('c \<times> 'c) list \<Rightarrow> error + 'c coords_file" where
  "coords_frame prefix ids Y =
     (if length Y \<noteq> length ids then Inl LengthMismatch
      else Inr \<lparr>path = prefix @ ''_coords.tsv'',
                sep = [CHR 0x09],
                header = [''id'', ''umap_x'', ''umap_y''],
                body = zip ids Y\<rparr>)"

text \<open>
  \<open>reducer n_neighbors random_state knn N\<close> stands for
  \<^verbatim>\<open>umap.UMAP(...).fit_transform(X_dummy)\<close>: it returns the rows of \<^verbatim>\<open>Y\<close> or fails.
\<close>

definition main ::
  "(int \<Rightarrow> int \<Rightarrow> graph \<Rightarrow> nat \<Rightarrow> error + ('c \<times> 'c) list) \<Rightarrow>
   args \<Rightarrow> nat \<Rightarrow> edge_record list \<Rightarrow> error + 'c coords_file" where
  "main reducer a ncols df =
     (case prepare a ncols df of
        Inl e \<Rightarrow> Inl e
      | Inr (ids, g) \<Rightarrow>
          (case reducer (min (umap_n_neighbors a) (k a + 1)) (seed a) g (length ids) of
             Inl e \<Rightarrow> Inl e
           | Inr Y \<Rightarrow> coords_frame (out_prefix a) ids Y))"

subsection \<open>Notions used in the statements\<close>

text \<open>
  Writing the first \<open>K\<close> values into the columns after column 0 of a row, as the two
  slice assignments of lines 107-108 do on a row of \<open>K + 1\<close> columns.
\<close>

definition write_row :: "nat \<Rightarrow> 'a list \<Rightarrow> 'a list \<Rightarrow> 'a list" where
  "write_row K vals row = take 1 row @ take K vals @ drop (1 + min K (length vals)) row"

text \<open>The index and the distance that an edge contributes (lines 103 and 105).\<close>

definition nbr_ix :: "(string \<rightharpoonup> nat) \<Rightarrow> 'a edge_record_scheme \<Rightarrow> int" where
  "nbr_ix ix e = int (the (ix (target e)))"

definition edge_dist :: "resolved_edge \<Rightarrow> fl" where
  "edge_dist e = dist_of (tm e)"

text \<open>Both arrays have \<open>N\<close> rows of \<open>W\<close> columns.\<close>

definition wf_graph :: "nat \<Rightarrow> nat \<Rightarrow> graph \<Rightarrow> bool" where
  "wf_graph N W g \<longleftrightarrow>
     length (indices g) = N \<and> length (dists g) = N \<and>
     (\<forall>r\<in>set (indices g). length r = W) \<and> (\<forall>r\<in>set (dists g). length r = W)"

text \<open>The groups whose query has index \<open>i\<close>, in the order of the loop.\<close>

definition subs_for ::
  "(string \<rightharpoonup> nat) \<Rightarrow> (string \<times> resolved_edge list) list \<Rightarrow> nat \<Rightarrow> resolved_edge list list" where
  "subs_for ix gs i = map snd (filter (\<lambda>grp. ix (fst grp) = Some i) gs)"

text \<open>The arrays after the loop of lines 96-98, and after the loop of lines 101-108.\<close>

definition self_graph :: "nat \<Rightarrow> nat \<Rightarrow> graph" where
  "self_graph K N =
     \<lparr>indices = map (\<lambda>i. int i # replicate K (- 1)) [0..<N],
      dists = map (\<lambda>i. Fin 0 # replicate K PosInf) [0..<N]\<rparr>"

definition neighbor_graph :: "int \<Rightarrow> string list \<Rightarrow> resolved_edge list \<Rightarrow> graph" where
  "neighbor_graph K ids df =
     \<lparr>indices = map (\<lambda>i. write_row (nat K) (map (nbr_ix (id2ix ids)) (group_rows (ids ! i) df))
                          (int i # replicate (nat K) (- 1))) [0..<length ids],
      dists = map (\<lambda>i. write_row (nat K) (map edge_dist (group_rows (ids ! i) df))
                        (Fin 0 # replicate (nat K) PosInf)) [0..<length ids]\<rparr>"

text \<open>The rows of the final frame that belong to query \<open>q\<close>: the \<^verbatim>\<open>sub\<close> of line 101.\<close>

definition neighbors :: "args \<Rightarrow> resolved_edge list \<Rightarrow> string \<Rightarrow> resolved_edge list" where
  "neighbors a rdf q = group_rows q (top_k a rdf)"

text \<open>
  The \<^verbatim>\<open>tm\<close> cell of one record as lines 58-71 compute it, and the records of the frame
  that \<^verbatim>\<open>dropna\<close> keeps, in frame order: those whose cell is not null.
\<close>

definition row_tm :: "nat \<Rightarrow> edge_record \<Rightarrow> fl option" where
  "row_tm ncols r = (if has_alntmscore ncols then alntmscore r else row_max (candidates ncols r))"

definition resolved_records :: "nat \<Rightarrow> edge_record list \<Rightarrow> edge_record list" where
  "resolved_records ncols df = filter (\<lambda>r. row_tm ncols r \<noteq> None) df"

text \<open>
  The resolution policy in the words of the specification: \<open>score / 100\<close> is offered
  whenever the score is present, \<open>evalue\<close> only when it lies in \<open>[0, 1]\<close>, and the
  similarity is the maximum of what is offered, or unresolved when nothing is.
\<close>

definition offered :: "nat \<Rightarrow> 'a edge_record_scheme \<Rightarrow> fl set" where
  "offered ncols r =
     {c. has_score ncols \<and> (\<exists>s. score r = Some s \<and> c = div100 s)} \<union>
     {c. has_evalue ncols \<and> evalue r = Some c \<and> Fin 0 \<le> c \<and> c \<le> Fin 1}"

definition spec_tm :: "nat \<Rightarrow> 'a edge_record_scheme \<Rightarrow> fl option" where
  "spec_tm ncols r = (if offered ncols r = {} then None else Some (Max (offered ncols r)))"

subsection \<open>Example inputs\<close>

definition example_args :: args where
  "example_args = \<lparr>k = 2, umap_n_neighbors = 3, min_tm = Some (Fin 0), seed = 42, out_prefix = ''umap''\<rparr>"

text \<open>Eight columns: edges A-B 0.9, A-C 0.4 and B-A 0.9.\<close>

definition example_df :: "edge_record list" where
  "example_df =
     [\<lparr>query = ''A'', target = ''B'', evalue = None, score = None, alntmscore = Some (Fin (9 / 10))\<rparr>,
      \<lparr>query = ''A'', target = ''C'', evalue = None, score = None, alntmscore = Some (Fin (4 / 10))\<rparr>,
      \<lparr>query = ''B'', target = ''A'', evalue = None, score = None, alntmscore = Some (Fin (9 / 10))\<rparr>]"

definition example_rdf :: "resolved_edge list" where
  "example_rdf =
     [\<lparr>query = ''A'', target = ''B'', evalue = None, score = None, alntmscore = Some (Fin (9 / 10)),
       tm = Fin (9 / 10)\<rparr>,
      \<lparr>query = ''A'', target = ''C'', evalue = None, score = None, alntmscore = Some (Fin (4 / 10)),
       tm = Fin (4 / 10)\<rparr>,
      \<lparr>query = ''B'', target = ''A'', evalue = None, score = None, alntmscore = Some (Fin (9 / 10)),
       tm = Fin (9 / 10)\<rparr>]"

definition example_ids :: "string list" where
  "example_ids = [''A'', ''B'', ''C'']"

definition example_graph :: graph where
  "example_graph =
     \<lparr>indices = [[0, 1, 2], [1, 0, - 1], [2, - 1, - 1]],
      dists = [[Fin 0, Fin (1 / 10), Fin (6 / 10)], [Fin 0, Fin (1 / 10), PosInf],
               [Fin 0, PosInf, PosInf]]\<rparr>"

text \<open>Seven columns: one record with score 80 and no evalue.\<close>

definition score80_df :: "edge_record list" where
  "score80_df =
     [\<lparr>query = ''A'', target = ''B'', evalue = None, score = Some (Fin 80), alntmscore = None\<rparr>]"

text \<open>
  Eight columns: the first record carries alntmscore, the second has a null alntmscore,
  score 80 and no evalue.
\<close>

definition mixed_df :: "edge_record list" where
  "mixed_df =
     [\<lparr>query = ''A'', target = ''B'', evalue = None, score = Some (Fin 90),
       alntmscore = Some (Fin (9 / 10))\<rparr>,
      \<lparr>query = ''A'', target = ''C'', evalue = None, score = Some (Fin 80), alntmscore = None\<rparr>]"

text \<open>Eight columns: the edge X-Y has no similarity, the edge A-B has.\<close>

definition unresolved_df :: "edge_record list" where
  "unresolved_df =
     [\<lparr>query = ''X'', target = ''Y'', evalue = None, score = None, alntmscore = None\<rparr>,
      \<lparr>query = ''A'', target = ''B'', evalue = None, score = None, alntmscore = Some (Fin (9 / 10))\<rparr>]"

text \<open>Eight columns: the pair A-B occurs in two records.\<close>

definition duplicate_df :: "edge_record list" where
  "duplicate_df =
     [\<lparr>query = ''A'', target = ''B'', evalue = None, score = None, alntmscore = Some (Fin (9 / 10))\<rparr>,
      \<lparr>query = ''A'', target = ''B'', evalue = None, score = None, alntmscore = Some (Fin (8 / 10))\<rparr>]"

text \<open>Seven columns: one record with score 500.\<close>

definition score500_df :: "edge_record list" where
  "score500_df =
     [\<lparr>query = ''A'', target = ''B'', evalue = None, score = Some (Fin 500), alntmscore = None\<rparr>]"

definition score500_edge :: resolved_edge where
  "score500_edge =
     \<lparr>query = ''A'', target = ''B'', evalue = None, score = Some (Fin 500), alntmscore = None,
      tm = Fin 5\<rparr>"

text \<open>Eight columns: one record with alntmscore 5.\<close>

definition alntmscore5_df :: "edge_record list" where
  "alntmscore5_df =
     [\<lparr>query = ''A'', target = ''B'', evalue = None, score = None, alntmscore = Some (Fin 5)\<rparr>]"

definition alntmscore5_edge :: resolved_edge where
  "alntmscore5_edge =
     \<lparr>query = ''A'', target = ''B'', evalue = None, score = None, alntmscore = Some (Fin 5),
      tm = Fin 5\<rparr>"

text \<open>Seven columns: one record with neither score nor evalue.\<close>

definition no_signal_df :: "edge_record list" where
  "no_signal_df =
     [\<lparr>query = ''A'', target = ''B'', evalue = None, score = None, alntmscore = None\<rparr>]"

text \<open>An embedding step that accepts every graph and puts every node at the origin.\<close>

definition origin_reducer :: "int \<Rightarrow> int \<Rightarrow> graph \<Rightarrow> nat \<Rightarrow> error + (int \<times> int) list" where
  "origin_reducer n_neighbors random_state knn N = Inr (replicate N (0, 0))"

text \<open>
  An embedding step that refuses an input without samples, and puts every node of any
  other input at the origin.
\<close>

definition strict_reducer :: "int \<Rightarrow> int \<Rightarrow> graph \<Rightarrow> nat \<Rightarrow> error + (int \<times> int) list" where
  "strict_reducer n_neighbors random_state knn N =
     (if N = 0 then Inl EmbeddingFailed else Inr (replicate N (0, 0)))"

section \<open>Properties\<close>

subsection \<open>The fill loop\<close>

lemma length_write_row:
  "length row = Suc K \<Longrightarrow> length (write_row K vals row) = Suc K"
  by (auto simp: write_row_def min_def)

lemma write_row_nth0:
  "row \<noteq> [] \<Longrightarrow> write_row K vals row ! 0 = row ! 0"
  by (cases row) (simp_all add: write_row_def)

lemma write_row_Nil [simp]: "write_row K [] row = row"
  by (simp add: write_row_def)

lemma slice_assign_row:
  assumes "0 \<le> K" and "length row = Suc (nat K)"
  shows "slice_assign row 1 (1 + min K (int (length vals))) (py_take vals (min K (int (length vals))))
         = Inr (write_row (nat K) vals row)"
proof -
  let ?n = "min K (int (length vals))"
  have n0: "0 \<le> ?n" using assms by simp
  have nn: "nat ?n = min (nat K) (length vals)" using assms(1) by linarith
  have lo: "py_bound (length row) 1 = 1" using assms by (simp add: py_bound_def)
  have hi: "py_bound (length row) (1 + ?n) = 1 + nat ?n"
    unfolding py_bound_def using assms n0 by (auto simp: min_def)
  have pb: "py_bound (length vals) ?n = min (nat K) (length vals)"
    unfolding py_bound_def using assms(1) by (auto simp: min_def)
  have tk: "py_take vals ?n = take (nat K) vals"
    unfolding py_take_def pb by (simp add: min_def)
  have len: "length (take (nat K) vals) = nat ?n" using nn by simp
  show ?thesis
    unfolding slice_assign_def Let_def lo hi tk write_row_def
    using len nn by simp
qed

lemma map_targets_ok:
  "\<forall>e\<in>set sub. target e \<in> dom ix \<Longrightarrow> map_targets ix sub = Inr (map (nbr_ix ix) sub)"
  by (induction sub) (auto simp: nbr_ix_def)

lemma map_targets_length:
  "map_targets ix sub = Inr js \<Longrightarrow> length js = length sub"
  by (induction sub arbitrary: js) (auto split: option.splits sum.splits)

lemma fill_group_ok:
  assumes "0 \<le> K" and "wf_graph N (Suc (nat K)) g"
    and "ix (fst grp) = Some i" and "i < N"
    and "\<forall>e\<in>set (snd grp). target e \<in> dom ix"
  shows "fill_group K ix grp g =
           Inr \<lparr>indices = (indices g)[i := write_row (nat K) (map (nbr_ix ix) (snd grp)) (indices g ! i)],
                dists = (dists g)[i := write_row (nat K) (map edge_dist (snd grp)) (dists g ! i)]\<rparr>"
proof -
  have li: "length (indices g ! i) = Suc (nat K)" and ld: "length (dists g ! i) = Suc (nat K)"
    using assms(2,4) by (auto simp: wf_graph_def)
  have il: "i < length (indices g)" "i < length (dists g)"
    using assms(2,4) by (auto simp: wf_graph_def)
  have s1: "slice_assign (indices g ! i) 1 (1 + min K (int (length (map (nbr_ix ix) (snd grp)))))
              (py_take (map (nbr_ix ix) (snd grp)) (min K (int (length (map (nbr_ix ix) (snd grp))))))
            = Inr (write_row (nat K) (map (nbr_ix ix) (snd grp)) (indices g ! i))"
    by (rule slice_assign_row[OF assms(1) li])
  have s2: "slice_assign (dists g ! i) 1 (1 + min K (int (length (map edge_dist (snd grp)))))
              (py_take (map edge_dist (snd grp)) (min K (int (length (map edge_dist (snd grp))))))
            = Inr (write_row (nat K) (map edge_dist (snd grp)) (dists g ! i))"
    by (rule slice_assign_row[OF assms(1) ld])
  have ed: "map (\<lambda>e. dist_of (tm e)) (snd grp) = map edge_dist (snd grp)"
    by (simp add: edge_dist_def)
  show ?thesis
    unfolding fill_group_def
    using s1 s2 il assms(3) map_targets_ok[OF assms(5)]
    by (simp add: Let_def ed)
qed

lemma wf_graph_update:
  assumes "wf_graph N W g" and "length r1 = W" and "length r2 = W"
  shows "wf_graph N W \<lparr>indices = (indices g)[i := r1], dists = (dists g)[i := r2]\<rparr>"
  using assms by (auto simp: wf_graph_def dest!: set_update_subset_insert[THEN subsetD])

lemma fill_neighbors_rows:
  assumes "0 \<le> K" and "wf_graph N (Suc (nat K)) g"
    and "\<forall>grp\<in>set gs. (\<exists>i<N. ix (fst grp) = Some i) \<and> (\<forall>e\<in>set (snd grp). target e \<in> dom ix)"
  shows "\<exists>g'. fill_neighbors K ix gs g = Inr g' \<and> wf_graph N (Suc (nat K)) g' \<and>
           (\<forall>i<N. indices g' ! i =
                     foldl (\<lambda>row sub. write_row (nat K) (map (nbr_ix ix) sub) row) (indices g ! i) (subs_for ix gs i) \<and>
                   dists g' ! i =
                     foldl (\<lambda>row sub. write_row (nat K) (map edge_dist sub) row) (dists g ! i) (subs_for ix gs i))"
  using assms(2,3)
proof (induction gs arbitrary: g)
  case Nil
  then show ?case by (simp add: subs_for_def)
next
  case (Cons grp gs)
  from Cons.prems(2) obtain j where j: "j < N" "ix (fst grp) = Some j"
    and tg: "\<forall>e\<in>set (snd grp). target e \<in> dom ix" by auto
  let ?g1 = "\<lparr>indices = (indices g)[j := write_row (nat K) (map (nbr_ix ix) (snd grp)) (indices g ! j)],
                dists = (dists g)[j := write_row (nat K) (map edge_dist (snd grp)) (dists g ! j)]\<rparr>"
  have fg: "fill_group K ix grp g = Inr ?g1"
    by (rule fill_group_ok[OF assms(1) Cons.prems(1) j(2) j(1) tg])
  have lj: "length (indices g ! j) = Suc (nat K)" "length (dists g ! j) = Suc (nat K)"
    using Cons.prems(1) j(1) by (auto simp: wf_graph_def)
  have wf1: "wf_graph N (Suc (nat K)) ?g1"
    by (rule wf_graph_update[OF Cons.prems(1)]) (simp_all add: length_write_row lj)
  from Cons.IH[OF wf1] Cons.prems(2)
  obtain g' where g': "fill_neighbors K ix gs ?g1 = Inr g'" "wf_graph N (Suc (nat K)) g'"
    and rows: "\<forall>i<N. indices g' ! i =
                     foldl (\<lambda>row sub. write_row (nat K) (map (nbr_ix ix) sub) row) (indices ?g1 ! i) (subs_for ix gs i) \<and>
                   dists g' ! i =
                     foldl (\<lambda>row sub. write_row (nat K) (map edge_dist sub) row) (dists ?g1 ! i) (subs_for ix gs i)"
    by auto
  have len: "length (indices g) = N" "length (dists g) = N"
    using Cons.prems(1) by (auto simp: wf_graph_def)
  have "\<forall>i<N. indices g' ! i =
                     foldl (\<lambda>row sub. write_row (nat K) (map (nbr_ix ix) sub) row) (indices g ! i) (subs_for ix (grp # gs) i) \<and>
                   dists g' ! i =
                     foldl (\<lambda>row sub. write_row (nat K) (map edge_dist sub) row) (dists g ! i) (subs_for ix (grp # gs) i)"
  proof (intro allI impI)
    fix i assume i: "i < N"
    show "indices g' ! i =
                     foldl (\<lambda>row sub. write_row (nat K) (map (nbr_ix ix) sub) row) (indices g ! i) (subs_for ix (grp # gs) i) \<and>
                   dists g' ! i =
                     foldl (\<lambda>row sub. write_row (nat K) (map edge_dist sub) row) (dists g ! i) (subs_for ix (grp # gs) i)"
      using rows[rule_format, OF i] i j len
      by (cases "i = j") (simp_all add: subs_for_def)
  qed
  with fg g' show ?case by auto
qed

subsection \<open>The initial arrays\<close>

lemma set_self_rows:
  assumes "\<forall>i\<in>set is. i < N" and "wf_graph N (Suc W) g"
  shows "\<exists>g'. set_self is g = Inr g' \<and> wf_graph N (Suc W) g' \<and>
           (\<forall>j<N. indices g' ! j = (if j \<in> set is then (indices g ! j)[0 := int j] else indices g ! j) \<and>
                   dists g' ! j = (if j \<in> set is then (dists g ! j)[0 := Fin 0] else dists g ! j))"
  using assms
proof (induction "is" arbitrary: g)
  case Nil
  then show ?case by simp
next
  case (Cons i rest)
  have i: "i < N" using Cons.prems(1) by simp
  have len: "length (indices g) = N" "length (dists g) = N"
    and li: "length (indices g ! i) = Suc W" "length (dists g ! i) = Suc W"
    using Cons.prems(2) i by (auto simp: wf_graph_def)
  let ?g1 = "\<lparr>indices = (indices g)[i := (indices g ! i)[0 := int i]],
                dists = (dists g)[i := (dists g ! i)[0 := Fin 0]]\<rparr>"
  have wf1: "wf_graph N (Suc W) ?g1"
    by (rule wf_graph_update[OF Cons.prems(2)]) (simp_all add: li)
  have step: "set_self (i # rest) g = set_self rest ?g1"
    using i len li by (simp add: set_cell_def)
  from Cons.IH[OF _ wf1] Cons.prems(1)
  obtain g' where g': "set_self rest ?g1 = Inr g'" "wf_graph N (Suc W) g'"
    and rows: "\<forall>j<N. indices g' ! j = (if j \<in> set rest then (indices ?g1 ! j)[0 := int j] else indices ?g1 ! j) \<and>
                   dists g' ! j = (if j \<in> set rest then (dists ?g1 ! j)[0 := Fin 0] else dists ?g1 ! j)"
    by auto
  have "\<forall>j<N. indices g' ! j = (if j \<in> set (i # rest) then (indices g ! j)[0 := int j] else indices g ! j) \<and>
                   dists g' ! j = (if j \<in> set (i # rest) then (dists g ! j)[0 := Fin 0] else dists g ! j)"
  proof (intro allI impI)
    fix j assume j: "j < N"
    show "indices g' ! j = (if j \<in> set (i # rest) then (indices g ! j)[0 := int j] else indices g ! j) \<and>
                   dists g' ! j = (if j \<in> set (i # rest) then (dists g ! j)[0 := Fin 0] else dists g ! j)"
      using rows[rule_format, OF j] j len by (cases "j = i") simp_all
  qed
  with step g' show ?case by auto
qed

lemma wf_self_graph: "wf_graph N (Suc K) (self_graph K N)"
  by (auto simp: wf_graph_def self_graph_def)

lemma init_graph_ok:
  assumes "0 \<le> K" and "\<not> too_big N (K + 1)"
  shows "init_graph K N = Inr (self_graph (nat K) N)"
proof -
  let ?g0 = "\<lparr>indices = replicate N (replicate (nat (K + 1)) (- 1)),
               dists = replicate N (replicate (nat (K + 1)) PosInf)\<rparr>"
  have W: "nat (K + 1) = Suc (nat K)" using assms by simp
  have wf0: "wf_graph N (Suc (nat K)) ?g0"
    by (simp add: wf_graph_def W)
  from set_self_rows[of "[0..<N]" N "nat K" ?g0, OF _ wf0]
  obtain g' where g': "set_self [0..<N] ?g0 = Inr g'" "wf_graph N (Suc (nat K)) g'"
    and rows: "\<forall>j<N. indices g' ! j = (if j \<in> set [0..<N] then (indices ?g0 ! j)[0 := int j] else indices ?g0 ! j) \<and>
                   dists g' ! j = (if j \<in> set [0..<N] then (dists ?g0 ! j)[0 := Fin 0] else dists ?g0 ! j)"
    by auto
  have "indices g' = indices (self_graph (nat K) N)"
    using g'(2) rows by (intro nth_equalityI) (auto simp: wf_graph_def self_graph_def W)
  moreover have "dists g' = dists (self_graph (nat K) N)"
    using g'(2) rows by (intro nth_equalityI) (auto simp: wf_graph_def self_graph_def W)
  ultimately have "g' = self_graph (nat K) N" by simp
  with g'(1) show ?thesis
    using assms by (simp add: init_graph_def np_full_def)
qed

lemma init_graph_negative:
  "K + 1 < 0 \<Longrightarrow> init_graph K N = Inl NegativeDimensions"
  by (simp add: init_graph_def np_full_def)

lemma init_graph_too_big:
  "0 \<le> K + 1 \<Longrightarrow> too_big N (K + 1) \<Longrightarrow> init_graph K N = Inl ArrayTooBig"
  by (simp add: init_graph_def np_full_def)

lemma init_graph_no_column:
  "K + 1 = 0 \<Longrightarrow> 0 < N \<Longrightarrow> \<not> too_big N (K + 1) \<Longrightarrow> init_graph K N = Inl IndexError"
  by (simp add: init_graph_def np_full_def upt_conv_Cons set_cell_def)

lemma not_too_big_empty: "W = 0 \<or> 4 * W \<le> max_intp \<Longrightarrow> \<not> too_big 0 W"
  by (auto simp: too_big_def max_intp_def)

lemma init_graph_empty:
  "K + 1 = 0 \<Longrightarrow> init_graph K 0 = Inr \<lparr>indices = [], dists = []\<rparr>"
  by (simp add: init_graph_def np_full_def not_too_big_empty)

lemma init_graph_no_nodes:
  "0 \<le> K + 1 \<Longrightarrow> \<not> too_big 0 (K + 1) \<Longrightarrow> init_graph K 0 = Inr \<lparr>indices = [], dists = []\<rparr>"
  by (simp add: init_graph_def np_full_def)

subsection \<open>The node index\<close>

lemma fold_enumerate_notin:
  "s \<notin> set ids \<Longrightarrow> fold (\<lambda>(i, sid) m. m(sid \<mapsto> i)) (List.enumerate n ids) m s = m s"
  by (induction ids arbitrary: n m) auto

lemma fold_enumerate_nth:
  "distinct ids \<Longrightarrow> i < length ids \<Longrightarrow>
   fold (\<lambda>(i, sid) m. m(sid \<mapsto> i)) (List.enumerate n ids) m (ids ! i) = Some (n + i)"
proof (induction ids arbitrary: n m i)
  case Nil
  then show ?case by simp
next
  case (Cons x xs)
  show ?case
  proof (cases i)
    case 0
    have a: "fold (\<lambda>(i, sid) m. m(sid \<mapsto> i)) (List.enumerate (Suc n) xs) (m(x \<mapsto> n)) x = (m(x \<mapsto> n)) x"
      by (rule fold_enumerate_notin) (use Cons.prems in simp)
    have b: "(m(x \<mapsto> n)) x = Some (n + 0)" by simp
    have c: "fold (\<lambda>(i, sid) m. m(sid \<mapsto> i)) (List.enumerate n (x # xs)) m =
             fold (\<lambda>(i, sid) m. m(sid \<mapsto> i)) (List.enumerate (Suc n) xs) (m(x \<mapsto> n))"
      by (simp del: fun_upd_apply)
    show ?thesis unfolding 0 nth_Cons_0 c a b ..
  next
    case (Suc j)
    then show ?thesis using Cons.prems Cons.IH[of j "Suc n"] by simp
  qed
qed

lemma id2ix_nth: "distinct ids \<Longrightarrow> i < length ids \<Longrightarrow> id2ix ids (ids ! i) = Some i"
  using fold_enumerate_nth[of ids i 0 Map.empty] by (simp add: id2ix_def)

lemma id2ix_notin: "s \<notin> set ids \<Longrightarrow> id2ix ids s = None"
  by (simp add: id2ix_def fold_enumerate_notin)

lemma id2ix_Some:
  assumes "distinct ids" and "id2ix ids s = Some i"
  shows "i < length ids \<and> ids ! i = s"
proof -
  have "s \<in> set ids" using assms(2) id2ix_notin by fastforce
  then obtain j where j: "j < length ids" "ids ! j = s" by (auto simp: in_set_conv_nth)
  with id2ix_nth[OF assms(1) j(1)] assms(2) show ?thesis by simp
qed

lemma dom_id2ix:
  assumes "distinct ids"
  shows "dom (id2ix ids) = set ids"
proof (intro set_eqI iffI)
  fix s assume "s \<in> dom (id2ix ids)"
  then obtain i where "id2ix ids s = Some i" by auto
  from id2ix_Some[OF assms this] show "s \<in> set ids" by auto
next
  fix s assume "s \<in> set ids"
  then obtain j where "j < length ids" "ids ! j = s" by (auto simp: in_set_conv_nth)
  with id2ix_nth[OF assms, of j] show "s \<in> dom (id2ix ids)" by auto
qed

lemma sorted_all_ids: "sorted (all_ids df)"
  by (simp add: all_ids_def)

lemma distinct_all_ids: "distinct (all_ids df)"
  by (simp add: all_ids_def)

lemma set_all_ids: "set (all_ids df) = query ` set df \<union> target ` set df"
  by (simp add: all_ids_def)

lemma all_ids_Nil_iff: "all_ids df = [] \<longleftrightarrow> df = []"
  using set_all_ids[of df] by (metis Un_empty image_is_empty set_empty)

subsection \<open>Groups\<close>

lemma set_first_seen: "set (first_seen seen xs) = set xs - set seen"
  by (induction seen xs rule: first_seen.induct) auto

lemma distinct_first_seen: "distinct (first_seen seen xs)"
  by (induction seen xs rule: first_seen.induct) (auto simp: set_first_seen)

lemma filter_eq_distinct:
  "distinct xs \<Longrightarrow> filter (\<lambda>y. y = x) xs = (if x \<in> set xs then [x] else [])"
  by (induction xs) auto

lemma group_rows_notin: "q \<notin> query ` set df \<Longrightarrow> group_rows q df = []"
  by (auto simp: group_rows_def filter_empty_conv)

lemma subs_for_groupby_query:
  assumes "distinct ids" and "i < length ids" and "query ` set df \<subseteq> set ids"
  shows "subs_for (id2ix ids) (groupby_query df) i =
           (if ids ! i \<in> query ` set df then [group_rows (ids ! i) df] else [])"
proof -
  let ?qs = "first_seen [] (map query df)"
  have qs: "set ?qs = query ` set df" by (simp add: set_first_seen)
  have "filter (\<lambda>q. id2ix ids q = Some i) ?qs = filter (\<lambda>q. q = ids ! i) ?qs"
  proof (rule filter_cong[OF refl])
    fix q assume "q \<in> set ?qs"
    show "(id2ix ids q = Some i) = (q = ids ! i)"
    proof
      assume "id2ix ids q = Some i"
      from id2ix_Some[OF assms(1) this] show "q = ids ! i" by simp
    next
      assume "q = ids ! i"
      then show "id2ix ids q = Some i" by (simp add: id2ix_nth[OF assms(1,2)])
    qed
  qed
  then have "subs_for (id2ix ids) (groupby_query df) i =
               map (\<lambda>q. group_rows q df) (filter (\<lambda>q. q = ids ! i) ?qs)"
    by (simp add: subs_for_def groupby_query_def filter_map comp_def)
  then show ?thesis
    by (simp add: filter_eq_distinct[OF distinct_first_seen] qs)
qed

subsection \<open>Filtering, ranking and truncation\<close>

lemma set_head_rows: "set (head_rows limit seen xs) \<subseteq> set xs"
  by (induction xs arbitrary: seen) auto

lemma filter_head_rows:
  "filter (\<lambda>x. query x = q) (head_rows limit seen xs) =
   take (limit q - seen q) (filter (\<lambda>x. query x = q) xs)"
proof (induction xs arbitrary: seen)
  case Nil
  then show ?case by simp
next
  case (Cons e es)
  have ih: "filter (\<lambda>x. query x = q) (head_rows limit (seen(query e := Suc (seen (query e)))) es) =
            take (limit q - (seen(query e := Suc (seen (query e)))) q) (filter (\<lambda>x. query x = q) es)"
    by (rule Cons.IH)
  show ?case
  proof (cases "query e = q")
    case True
    have ih': "filter (\<lambda>x. query x = q) (head_rows limit (seen(q := Suc (seen q))) es) =
               take (limit q - Suc (seen q)) (filter (\<lambda>x. query x = q) es)"
      using ih[unfolded True] by (simp only: fun_upd_same)
    show ?thesis
    proof (cases "seen q < limit q")
      case lt: True
      then obtain d where d: "limit q - seen q = Suc d" "limit q - Suc (seen q) = d"
        by (cases "limit q - seen q") auto
      show ?thesis using True lt by (simp add: ih' d)
    next
      case ge: False
      then have "limit q - seen q = 0" "limit q - Suc (seen q) = 0" by auto
      then show ?thesis using True ge by (simp add: ih')
    qed
  next
    case False
    have ih': "filter (\<lambda>x. query x = q) (head_rows limit (seen(query e := Suc (seen (query e)))) es) =
               take (limit q - seen q) (filter (\<lambda>x. query x = q) es)"
      using ih False by (simp only: fun_upd_other[OF False[symmetric]])
    show ?thesis using False by (simp add: ih')
  qed
qed

lemma group_rows_head_rows:
  "group_rows q (head_rows limit seen xs) = take (limit q - seen q) (group_rows q xs)"
  by (simp add: group_rows_def filter_head_rows)

lemma group_rows_groupby_head:
  "group_rows q (groupby_head K df) = take (py_bound (length (group_rows q df)) K) (group_rows q df)"
  by (simp add: groupby_head_def group_rows_head_rows)

lemma group_rows_groupby_head_nonneg:
  "0 \<le> K \<Longrightarrow> group_rows q (groupby_head K df) = take (nat K) (group_rows q df)"
  by (simp add: group_rows_groupby_head py_bound_def min_def)

lemma set_groupby_head: "set (groupby_head K df) \<subseteq> set df"
  by (simp add: groupby_head_def set_head_rows)

lemma set_filter_edges: "set (filter_edges m df) \<subseteq> set df"
  by (auto simp: filter_edges_def apply_min_tm_def remove_self_def split: option.splits)

lemma set_top_k: "set (top_k a df) \<subseteq> set df"
  using set_groupby_head[of "k a" "sort_values (filter_edges (min_tm a) df)"]
    set_filter_edges[of "min_tm a" df]
  by (auto simp: top_k_def sort_values_def)

lemma insort_key_fst_const:
  assumes "\<forall>y\<in>set (x # ys). f y = (c, h y)"
  shows "insort_key f x ys = insort_key h x ys"
  using assms by (induction ys) auto

lemma sort_key_fst_const:
  assumes "\<forall>y\<in>set xs. f y = (c, h y)"
  shows "sort_key f xs = sort_key h xs"
  using assms
proof (induction xs)
  case Nil
  then show ?case by simp
next
  case (Cons x xs)
  have "\<forall>y\<in>set (x # sort_key h xs). f y = (c, h y)" using Cons.prems by simp
  from insort_key_fst_const[OF this] Cons show ?case by simp
qed

lemma group_rows_sort_values:
  "group_rows q (sort_values df) = sort_key (\<lambda>e. fneg (tm e)) (group_rows q df)"
proof -
  have "group_rows q (sort_values df) = sort_key (\<lambda>e. (query e, fneg (tm e))) (group_rows q df)"
    by (simp add: group_rows_def sort_values_def filter_sort)
  also have "\<dots> = sort_key (\<lambda>e. fneg (tm e)) (group_rows q df)"
    by (rule sort_key_fst_const[where c = q]) (simp add: group_rows_def)
  finally show ?thesis .
qed

lemma top_k_Nil: "top_k a [] = []"
  by (simp add: top_k_def filter_edges_def remove_self_def apply_min_tm_def sort_values_def
      groupby_head_def split: option.splits)

subsection \<open>The assembled graph in closed form\<close>

lemma build_graph_ok:
  assumes "0 \<le> K" and "distinct ids" and "query ` set df \<union> target ` set df \<subseteq> set ids"
    and "\<not> too_big (length ids) (K + 1)"
  shows "build_graph K (length ids) (id2ix ids) df = Inr (neighbor_graph K ids df)"
proof -
  let ?N = "length ids" and ?ix = "id2ix ids" and ?g0 = "self_graph (nat K) (length ids)"
  have grp: "\<forall>grp\<in>set (groupby_query df).
               (\<exists>i<?N. ?ix (fst grp) = Some i) \<and> (\<forall>e\<in>set (snd grp). target e \<in> dom ?ix)"
  proof
    fix grp assume "grp \<in> set (groupby_query df)"
    then have q: "fst grp \<in> query ` set df" and sub: "set (snd grp) \<subseteq> set df"
      by (auto simp: groupby_query_def set_first_seen group_rows_def)
    from q assms(3) have "fst grp \<in> set ids" by auto
    then obtain i where "i < ?N" "ids ! i = fst grp" by (auto simp: in_set_conv_nth)
    then have "\<exists>i<?N. ?ix (fst grp) = Some i"
      using id2ix_nth[OF assms(2), of i] by auto
    moreover have "\<forall>e\<in>set (snd grp). target e \<in> dom ?ix"
      using sub assms(3) by (auto simp: dom_id2ix[OF assms(2)])
    ultimately show "(\<exists>i<?N. ?ix (fst grp) = Some i) \<and> (\<forall>e\<in>set (snd grp). target e \<in> dom ?ix)"
      by simp
  qed
  from fill_neighbors_rows[OF assms(1) wf_self_graph grp]
  obtain g' where g': "fill_neighbors K ?ix (groupby_query df) ?g0 = Inr g'"
    and wf: "wf_graph ?N (Suc (nat K)) g'"
    and rows: "\<forall>i<?N. indices g' ! i =
                     foldl (\<lambda>row sub. write_row (nat K) (map (nbr_ix ?ix) sub) row) (indices ?g0 ! i)
                       (subs_for ?ix (groupby_query df) i) \<and>
                   dists g' ! i =
                     foldl (\<lambda>row sub. write_row (nat K) (map edge_dist sub) row) (dists ?g0 ! i)
                       (subs_for ?ix (groupby_query df) i)"
    by blast
  have qs: "query ` set df \<subseteq> set ids" using assms(3) by simp
  have r: "indices g' ! i = indices (neighbor_graph K ids df) ! i \<and>
           dists g' ! i = dists (neighbor_graph K ids df) ! i" if i: "i < ?N" for i
    using rows[rule_format, OF i] i
    by (simp add: subs_for_groupby_query[OF assms(2) i qs] neighbor_graph_def self_graph_def
        group_rows_notin)
  have "indices g' = indices (neighbor_graph K ids df)"
    using wf r by (intro nth_equalityI) (auto simp: wf_graph_def neighbor_graph_def)
  moreover have "dists g' = dists (neighbor_graph K ids df)"
    using wf r by (intro nth_equalityI) (auto simp: wf_graph_def neighbor_graph_def)
  ultimately have "g' = neighbor_graph K ids df" by simp
  with g' show ?thesis
    by (simp add: build_graph_def init_graph_ok[OF assms(1,4)])
qed

lemma assemble_eq:
  "assemble a rdf =
     (if k a + 1 < 0 then Inl NegativeDimensions
      else if too_big (length (all_ids rdf)) (k a + 1) then Inl ArrayTooBig
      else if k a + 1 = 0 then (if rdf = [] then Inr ([], \<lparr>indices = [], dists = []\<rparr>) else Inl IndexError)
      else Inr (all_ids rdf, neighbor_graph (k a) (all_ids rdf) (top_k a rdf)))"
proof -
  let ?N = "length (all_ids rdf)"
  consider "k a + 1 < 0" | "0 \<le> k a + 1" "too_big ?N (k a + 1)"
    | "k a + 1 = 0" "\<not> too_big ?N (k a + 1)" "rdf = []"
    | "k a + 1 = 0" "\<not> too_big ?N (k a + 1)" "rdf \<noteq> []"
    | "0 \<le> k a" "\<not> too_big ?N (k a + 1)"
    by linarith
  then show ?thesis
  proof cases
    case 1
    then show ?thesis by (simp add: assemble_def build_graph_def init_graph_negative)
  next
    case 2
    then show ?thesis by (simp add: assemble_def build_graph_def init_graph_too_big Let_def)
  next
    case 3
    then show ?thesis
      by (simp add: assemble_def build_graph_def all_ids_def init_graph_empty top_k_Nil
          groupby_query_def)
  next
    case 4
    then have "0 < ?N" by (simp add: all_ids_Nil_iff)
    with 4 show ?thesis
      by (simp add: assemble_def build_graph_def init_graph_no_column Let_def)
  next
    case 5
    have "query ` set (top_k a rdf) \<union> target ` set (top_k a rdf) \<subseteq> set (all_ids rdf)"
      using set_top_k[of a rdf] by (auto simp: set_all_ids)
    from build_graph_ok[OF 5(1) distinct_all_ids this 5(2)] 5 show ?thesis
      by (simp add: assemble_def Let_def)
  qed
qed

lemma resolve_eq:
  "resolve ncols df =
     (if has_alntmscore ncols \<or> has_evalue ncols then
        Inr (dropna df (if has_alntmscore ncols then map alntmscore df
                        else map (\<lambda>r. row_max (candidates ncols r)) df))
      else Inl NoObjectsToConcatenate)"
  by (auto simp: resolve_def tm_column_def has_alntmscore_def has_evalue_def has_score_def)

lemma prepare_InrD:
  assumes "prepare a ncols df = Inr (ids, g)"
  obtains rdf where "resolve ncols df = Inr rdf" and "ids = all_ids rdf"
    and "umap_n_neighbors a \<le> k a + 1" and "\<not> too_big (length ids) (k a + 1)"
    and "(0 \<le> k a \<and> g = neighbor_graph (k a) ids (top_k a rdf)) \<or>
         (k a = - 1 \<and> rdf = [] \<and> ids = [] \<and> g = \<lparr>indices = [], dists = []\<rparr>)"
proof -
  from assms have u: "umap_n_neighbors a \<le> k a + 1"
    by (auto simp: prepare_def split: if_splits)
  from assms u obtain rdf where r: "resolve ncols df = Inr rdf" and as: "assemble a rdf = Inr (ids, g)"
    by (auto simp: prepare_def split: sum.splits)
  from as have "ids = all_ids rdf \<and> \<not> too_big (length ids) (k a + 1) \<and>
         ((0 \<le> k a \<and> g = neighbor_graph (k a) ids (top_k a rdf)) \<or>
          (k a = - 1 \<and> rdf = [] \<and> ids = [] \<and> g = \<lparr>indices = [], dists = []\<rparr>))"
    unfolding assemble_eq by (auto split: if_splits simp: all_ids_def)
  with r u that show ?thesis by blast
qed

subsection \<open>Similarity resolution against the stated policy\<close>

lemma offered_cases:
  "offered ncols r =
     (case (if has_score ncols then score r else None) of None \<Rightarrow> {} | Some s \<Rightarrow> {div100 s}) \<union>
     (case ev_valid (if has_evalue ncols then evalue r else None) of None \<Rightarrow> {} | Some v \<Rightarrow> {v})"
  by (auto simp: offered_def ev_valid_def split: option.splits if_splits)

lemma row_max_spec_tm:
  assumes "has_evalue ncols"
  shows "row_max (candidates ncols r) = spec_tm ncols r"
  using assms
  by (auto simp: row_max_def candidates_def spec_tm_def offered_cases ev_valid_def max.commute
      split: option.splits if_splits)

lemma tm_column_rows: "tm_column ncols df = Inr tms \<Longrightarrow> tms = map (row_tm ncols) df"
  by (auto simp: tm_column_def row_tm_def split: if_splits)

lemma query_extend [simp]: "query (edge_record.extend r x) = query r"
  by (cases r) (simp add: edge_record.defs)

lemma target_extend [simp]: "target (edge_record.extend r x) = target r"
  by (cases r) (simp add: edge_record.defs)

lemma tm_extend [simp]: "tm (edge_record.extend r \<lparr>tm = t\<rparr>) = t"
  by (cases r) (simp add: edge_record.defs resolved_edge.defs)

lemma dropna_map:
  "dropna df (map f df) =
     map (\<lambda>r. edge_record.extend r \<lparr>tm = the (f r)\<rparr>) (filter (\<lambda>r. f r \<noteq> None) df)"
proof (induction df)
  case Nil
  then show ?case by simp
next
  case (Cons r rs)
  then show ?case by (cases "f r") simp_all
qed

lemma resolve_kept:
  assumes "resolve ncols df = Inr rdf"
  shows "map query rdf = map query (resolved_records ncols df) \<and>
         map target rdf = map target (resolved_records ncols df) \<and>
         map tm rdf = map (\<lambda>r. the (row_tm ncols r)) (resolved_records ncols df)"
proof -
  from assms obtain tms where t: "tm_column ncols df = Inr tms" and r: "rdf = dropna df tms"
    by (auto simp: resolve_def split: sum.splits)
  from tm_column_rows[OF t] r have "rdf = dropna df (map (row_tm ncols) df)" by simp
  then show ?thesis
    unfolding dropna_map resolved_records_def by (simp add: comp_def)
qed

lemma unresolved_prepare:
  "prepare example_args 8 unresolved_df =
     Inr ([''A'', ''B''],
          \<lparr>indices = [[0, 1, - 1], [1, - 1, - 1]],
           dists = [[Fin 0, Fin (1 / 10), PosInf], [Fin 0, PosInf, PosInf]]\<rparr>)"
  by code_simp

lemma example_resolve: "resolve 8 example_df = Inr example_rdf"
  by (simp add: resolve_def tm_column_def has_alntmscore_def example_df_def example_rdf_def
      edge_record.defs resolved_edge.defs)

lemma example_prepare: "prepare example_args 8 example_df = Inr (example_ids, example_graph)"
  by code_simp

subsection \<open>Rows of the assembled graph\<close>

lemma write_row_self:
  "length vals \<le> K \<Longrightarrow> write_row K vals (x # replicate K s) = x # vals @ replicate (K - length vals) s"
  by (simp add: write_row_def min_def)

lemma neighbors_eq:
  "0 \<le> k a \<Longrightarrow>
   neighbors a rdf q =
     take (nat (k a)) (sort_key (\<lambda>e. fneg (tm e)) (group_rows q (filter_edges (min_tm a) rdf)))"
  by (simp add: neighbors_def top_k_def group_rows_groupby_head_nonneg group_rows_sort_values)

lemma length_neighbors: "0 \<le> k a \<Longrightarrow> length (neighbors a rdf q) \<le> nat (k a)"
  by (simp add: neighbors_eq)

lemma set_neighbors: "set (neighbors a rdf q) \<subseteq> set rdf"
  using set_top_k[of a rdf] by (auto simp: neighbors_def group_rows_def)

lemma graph_rows:
  assumes "prepare a ncols df = Inr (ids, g)" and "i < length ids"
  obtains rdf where "resolve ncols df = Inr rdf" and "ids = all_ids rdf" and "0 \<le> k a"
    and "length (indices g) = length ids" and "length (dists g) = length ids"
    and "length (neighbors a rdf (ids ! i)) \<le> nat (k a)"
    and "indices g ! i =
           int i # map (nbr_ix (id2ix ids)) (neighbors a rdf (ids ! i)) @
           replicate (nat (k a) - length (neighbors a rdf (ids ! i))) (- 1)"
    and "dists g ! i =
           Fin 0 # map edge_dist (neighbors a rdf (ids ! i)) @
           replicate (nat (k a) - length (neighbors a rdf (ids ! i))) PosInf"
proof -
  from assms(2) have ne: "ids \<noteq> []" by auto
  from prepare_InrD[OF assms(1)]
  obtain rdf where r: "resolve ncols df = Inr rdf" "ids = all_ids rdf"
    and d: "(0 \<le> k a \<and> g = neighbor_graph (k a) ids (top_k a rdf)) \<or>
         (k a = - 1 \<and> rdf = [] \<and> ids = [] \<and> g = \<lparr>indices = [], dists = []\<rparr>)"
    by blast
  from d ne have K: "0 \<le> k a" and g: "g = neighbor_graph (k a) ids (top_k a rdf)"
    by auto
  have len: "length (neighbors a rdf (ids ! i)) \<le> nat (k a)"
    by (rule length_neighbors[OF K])
  have nb: "group_rows (ids ! i) (top_k a rdf) = neighbors a rdf (ids ! i)"
    by (simp add: neighbors_def)
  have ri: "indices g ! i =
           int i # map (nbr_ix (id2ix ids)) (neighbors a rdf (ids ! i)) @
           replicate (nat (k a) - length (neighbors a rdf (ids ! i))) (- 1)"
    unfolding g neighbor_graph_def using assms(2) len by (simp add: nb write_row_self)
  have rd: "dists g ! i =
           Fin 0 # map edge_dist (neighbors a rdf (ids ! i)) @
           replicate (nat (k a) - length (neighbors a rdf (ids ! i))) PosInf"
    unfolding g neighbor_graph_def using assms(2) len by (simp add: nb write_row_self)
  have l: "length (indices g) = length ids" "length (dists g) = length ids"
    by (simp_all add: g neighbor_graph_def)
  show ?thesis by (rule that[OF r K l len ri rd])
qed

lemma graph_lengths:
  assumes "prepare a ncols df = Inr (ids, g)"
  shows "length (indices g) = length ids \<and> length (dists g) = length ids"
proof -
  from prepare_InrD[OF assms]
  obtain rdf where
    "(0 \<le> k a \<and> g = neighbor_graph (k a) ids (top_k a rdf)) \<or>
     (k a = - 1 \<and> rdf = [] \<and> ids = [] \<and> g = \<lparr>indices = [], dists = []\<rparr>)"
    by blast
  then show ?thesis by (auto simp: neighbor_graph_def)
qed

lemma dist_of_range: "Fin 0 \<le> dist_of t \<and> dist_of t \<le> Fin 1"
  by (cases t) (auto simp: dist_of_def clip_def min_def max_def)

lemma dist_of_antimono: "s \<le> t \<Longrightarrow> dist_of t \<le> dist_of s"
  by (cases s; cases t) (auto simp: dist_of_def clip_def min_def max_def)

lemma fneg_le_iff: "fneg x \<le> fneg y \<longleftrightarrow> y \<le> x"
  by (cases x; cases y) auto

lemma fneg_eq_iff: "fneg x = fneg y \<longleftrightarrow> x = y"
  by (cases x; cases y) auto

subsection \<open>Lookups and column 0 during the fill loop\<close>

lemma groupby_query_lookup:
  assumes "distinct ids" and "query ` set df \<union> target ` set df \<subseteq> set ids"
  shows "\<forall>grp\<in>set (groupby_query df).
           (\<exists>i<length ids. id2ix ids (fst grp) = Some i) \<and>
           (\<forall>e\<in>set (snd grp). target e \<in> dom (id2ix ids))"
proof
  fix grp assume "grp \<in> set (groupby_query df)"
  then have q: "fst grp \<in> query ` set df" and sub: "set (snd grp) \<subseteq> set df"
    by (auto simp: groupby_query_def set_first_seen group_rows_def)
  from q assms(2) have "fst grp \<in> set ids" by auto
  then obtain i where "i < length ids" "ids ! i = fst grp" by (auto simp: in_set_conv_nth)
  then have "\<exists>i<length ids. id2ix ids (fst grp) = Some i"
    using id2ix_nth[OF assms(1), of i] by auto
  moreover have "\<forall>e\<in>set (snd grp). target e \<in> dom (id2ix ids)"
    using sub assms(2) by (auto simp: dom_id2ix[OF assms(1)])
  ultimately show "(\<exists>i<length ids. id2ix ids (fst grp) = Some i) \<and>
           (\<forall>e\<in>set (snd grp). target e \<in> dom (id2ix ids))"
    by simp
qed

lemma foldl_write_row_nth0:
  "length row = Suc K \<Longrightarrow>
   foldl (\<lambda>row sub. write_row K (f sub) row) row subs ! 0 = row ! 0"
proof (induction subs arbitrary: row)
  case Nil
  then show ?case by simp
next
  case (Cons sub subs)
  have "length (write_row K (f sub) row) = Suc K"
    by (rule length_write_row[OF Cons.prems])
  from Cons.IH[OF this] Cons.prems show ?case
    by (simp add: write_row_nth0 length_0_conv[symmetric] del: length_0_conv)
qed

lemma fill_prefix_column0:
  assumes "0 \<le> K" and "distinct ids" and "query ` set df \<union> target ` set df \<subseteq> set ids"
  shows "\<exists>gm. fill_neighbors K (id2ix ids) (take m (groupby_query df)) (self_graph (nat K) (length ids)) = Inr gm \<and>
           (\<forall>i<length ids. indices gm ! i ! 0 = int i \<and> dists gm ! i ! 0 = Fin 0)"
proof -
  let ?gs = "take m (groupby_query df)" and ?g0 = "self_graph (nat K) (length ids)"
  have "\<forall>grp\<in>set ?gs.
           (\<exists>i<length ids. id2ix ids (fst grp) = Some i) \<and>
           (\<forall>e\<in>set (snd grp). target e \<in> dom (id2ix ids))"
    using groupby_query_lookup[OF assms(2,3)] by (meson in_set_takeD)
  from fill_neighbors_rows[OF assms(1) wf_self_graph this]
  obtain gm where gm: "fill_neighbors K (id2ix ids) ?gs ?g0 = Inr gm"
    and rows: "\<forall>i<length ids. indices gm ! i =
                     foldl (\<lambda>row sub. write_row (nat K) (map (nbr_ix (id2ix ids)) sub) row) (indices ?g0 ! i)
                       (subs_for (id2ix ids) ?gs i) \<and>
                   dists gm ! i =
                     foldl (\<lambda>row sub. write_row (nat K) (map edge_dist sub) row) (dists ?g0 ! i)
                       (subs_for (id2ix ids) ?gs i)"
    by blast
  have "indices gm ! i ! 0 = int i \<and> dists gm ! i ! 0 = Fin 0" if i: "i < length ids" for i
  proof -
    have li: "length (indices ?g0 ! i) = Suc (nat K)" and ld: "length (dists ?g0 ! i) = Suc (nat K)"
      using i by (simp_all add: self_graph_def)
    have "indices ?g0 ! i ! 0 = int i" "dists ?g0 ! i ! 0 = Fin 0"
      using i by (simp_all add: self_graph_def)
    with rows[rule_format, OF i]
      foldl_write_row_nth0[OF li, where f = "map (nbr_ix (id2ix ids))"
        and subs = "subs_for (id2ix ids) ?gs i"]
      foldl_write_row_nth0[OF ld, where f = "map edge_dist"
        and subs = "subs_for (id2ix ids) ?gs i"]
    show ?thesis by simp
  qed
  with gm show ?thesis by blast
qed

lemma prepare_cases:
  "prepare a ncols df = Inl AssertionError \<or> prepare a ncols df = Inl NoObjectsToConcatenate \<or>
   prepare a ncols df = Inl NegativeDimensions \<or> prepare a ncols df = Inl ArrayTooBig \<or>
   prepare a ncols df = Inl IndexError \<or> (\<exists>p. prepare a ncols df = Inr p)"
  unfolding prepare_def resolve_eq assemble_eq by simp

lemma nbr_ix_range:
  assumes "distinct ids" and "target e \<in> set ids"
  shows "0 \<le> nbr_ix (id2ix ids) e \<and> nbr_ix (id2ix ids) e < int (length ids)"
proof -
  from assms(2) obtain j where j: "j < length ids" "ids ! j = target e"
    by (auto simp: in_set_conv_nth)
  with id2ix_nth[OF assms(1) j(1)] show ?thesis by (simp add: nbr_ix_def)
qed

lemma targets_neighbors: "e \<in> set (neighbors a rdf q) \<Longrightarrow> target e \<in> set (all_ids rdf)"
  using set_neighbors[of a rdf q] by (auto simp: set_all_ids)

subsection \<open>Columns of a row\<close>

lemma row_nth_populated:
  "1 \<le> j \<Longrightarrow> j \<le> length vals \<Longrightarrow> (x # vals @ pad) ! j = vals ! (j - 1)"
  by (cases j) (simp_all add: nth_append)

lemma row_nth_sentinel:
  "length vals < j \<Longrightarrow> j \<le> length vals + n \<Longrightarrow> (x # vals @ replicate n s) ! j = s"
  by (cases j) (simp_all add: nth_append)

lemma sorted_wrt_neighbors:
  assumes "0 \<le> k a"
  shows "sorted_wrt (\<lambda>x y. tm y \<le> tm x) (neighbors a rdf q)"
proof -
  let ?grp = "group_rows q (filter_edges (min_tm a) rdf)"
  have "sorted (map (\<lambda>e. fneg (tm e)) (sort_key (\<lambda>e. fneg (tm e)) ?grp))"
    by (rule sorted_sort_key)
  then have "sorted_wrt (\<lambda>x y. tm y \<le> tm x) (sort_key (\<lambda>e. fneg (tm e)) ?grp)"
    by (simp add: sorted_map fneg_le_iff)
  then show ?thesis
    unfolding neighbors_eq[OF assms] by (rule sorted_wrt_take)
qed

subsection \<open>Order and distinctness inside a row\<close>

lemma sorted_edge_dist_neighbors:
  assumes "0 \<le> k a"
  shows "sorted (map edge_dist (neighbors a rdf q))"
proof -
  have "sorted_wrt (\<lambda>x y. edge_dist x \<le> edge_dist y) (neighbors a rdf q)"
    by (rule sorted_wrt_mono_rel[OF _ sorted_wrt_neighbors[OF assms]])
      (simp add: edge_dist_def dist_of_antimono)
  then show ?thesis by (simp add: sorted_map)
qed

lemma edge_dist_finite: "edge_dist e \<noteq> PosInf"
  using dist_of_range[of "tm e"] by (auto simp: edge_dist_def)

lemma inj_on_index: "distinct ids \<Longrightarrow> inj_on (\<lambda>s. int (the (id2ix ids s))) (set ids)"
proof (rule inj_onI)
  fix x y assume d: "distinct ids" and x: "x \<in> set ids" and y: "y \<in> set ids"
    and eq: "int (the (id2ix ids x)) = int (the (id2ix ids y))"
  from x y obtain i j where i: "i < length ids" "ids ! i = x" and j: "j < length ids" "ids ! j = y"
    by (auto simp: in_set_conv_nth)
  from id2ix_nth[OF d i(1)] id2ix_nth[OF d j(1)] eq i(2) j(2) have "i = j" by simp
  with i j show "x = y" by simp
qed

lemma filter_populated:
  assumes "\<forall>v\<in>set vals. v \<noteq> s"
  shows "filter (\<lambda>v. v \<noteq> s) (tl (x # vals @ replicate n s)) = vals"
  using assms by (simp add: filter_id_conv)

section \<open>The claims\<close>

subsection \<open>C1: similarity resolution\<close>

text \<open>
  C1, as the code has it: the fallback is chosen by the columns of the input, not record
  by record. When the input has the \<^verbatim>\<open>alntmscore\<close> column, \<^verbatim>\<open>tm\<close> is \<^verbatim>\<open>alntmscore\<close> for
  every record (a null one stays null and the record is dropped). When the input has no
  \<^verbatim>\<open>alntmscore\<close> column and at least the \<^verbatim>\<open>evalue\<close> column, \<^verbatim>\<open>tm\<close> of every record is the
  maximum over the offered candidates: \<open>score / 100\<close> whenever the score is present,
  \<open>evalue\<close> only when it lies in \<open>[0, 1]\<close>; nothing offered leaves it null.
\<close>

theorem resolution_by_schema:
  "(has_alntmscore ncols \<longrightarrow> tm_column ncols df = Inr (map alntmscore df)) \<and>
   (\<not> has_alntmscore ncols \<and> has_evalue ncols \<longrightarrow>
      tm_column ncols df = Inr (map (spec_tm ncols) df))"
  by (simp add: tm_column_def row_max_spec_tm)

text \<open>
  In a seven-column input a record with score 80 and no evalue resolves to 0.8; in an
  eight-column input the column is used as it is.
\<close>

theorem resolution_by_schema_witness:
  "\<not> has_alntmscore 7 \<and> has_evalue 7 \<and>
   tm_column 7 score80_df = Inr (map (spec_tm 7) score80_df) \<and>
   tm_column 7 score80_df = Inr [Some (Fin (8 / 10))] \<and>
   has_alntmscore 8 \<and> tm_column 8 mixed_df = Inr (map alntmscore mixed_df)"
proof -
  have h7: "\<not> has_alntmscore 7 \<and> has_evalue 7" and h8: "has_alntmscore 8"
    by (simp_all add: has_alntmscore_def has_evalue_def)
  have v: "tm_column 7 score80_df = Inr [Some (Fin (8 / 10))]"
    by (simp add: has_alntmscore_def has_evalue_def has_score_def tm_column_def score80_df_def
        candidates_def row_max_def ev_valid_def)
  from resolution_by_schema[of 7 score80_df] h7
  have a: "tm_column 7 score80_df = Inr (map (spec_tm 7) score80_df)" by blast
  from resolution_by_schema[of 8 mixed_df] h8
  have b: "tm_column 8 mixed_df = Inr (map alntmscore mixed_df)" by blast
  from h7 h8 v a b show ?thesis by blast
qed

text \<open>
  The claim as stated fails in an eight-column input: the second record of \<open>mixed_df\<close>
  has a null \<^verbatim>\<open>alntmscore\<close>, score 80 and no evalue; the stated policy gives it 0.8, the
  code leaves it null and drops it.
\<close>

theorem per_record_fallback_counterexample:
  "tm_column 8 mixed_df = Inr [Some (Fin (9 / 10)), None] \<and>
   map (spec_tm 8) mixed_df = [Some (Fin (9 / 10)), Some (Fin (8 / 10))] \<and>
   map tm (dropna mixed_df [Some (Fin (9 / 10)), None]) = [Fin (9 / 10)]"
  by (simp add: tm_column_def has_alntmscore_def mixed_df_def spec_tm_def offered_cases
      has_score_def has_evalue_def ev_valid_def edge_record.defs resolved_edge.defs)

subsection \<open>C5: range of the similarity\<close>

text \<open>
  C5 asks that every resolved edge that is retained has \<^verbatim>\<open>tm\<close> in \<open>[0, 1]\<close>, which is
  what the comment on line 56 announces and what line 68 enforces for the evalue
  candidate. The code does not enforce it for \<open>score / 100\<close> nor for \<^verbatim>\<open>alntmscore\<close>: a
  seven-column record with score 500 resolves to \<^verbatim>\<open>tm\<close> 5.0, an eight-column record
  with alntmscore 5 to \<^verbatim>\<open>tm\<close> 5.0, and both edges are retained by the filters and the
  top-K selection.
\<close>

theorem tm_out_of_range_retained:
  "resolve 7 score500_df = Inr [score500_edge] \<and>
   top_k example_args [score500_edge] = [score500_edge] \<and>
   tm score500_edge = Fin 5 \<and> Fin 1 < tm score500_edge \<and>
   resolve 8 alntmscore5_df = Inr [alntmscore5_edge] \<and>
   top_k example_args [alntmscore5_edge] = [alntmscore5_edge] \<and>
   tm alntmscore5_edge = Fin 5 \<and> Fin 1 < tm alntmscore5_edge"
  by (simp add: resolve_def tm_column_def has_alntmscore_def has_score_def has_evalue_def
      score500_df_def score500_edge_def alntmscore5_df_def alntmscore5_edge_def
      candidates_def row_max_def ev_valid_def
      edge_record.defs resolved_edge.defs top_k_def filter_edges_def remove_self_def
      apply_min_tm_def example_args_def sort_values_def groupby_head_def group_rows_def
      py_bound_def less_fl_def)

subsection \<open>C9: the coordinates file\<close>

text \<open>
  C9, as the code has it: the coordinates file is \<^verbatim>\<open><prefix>_coords.tsv\<close>, tab-separated,
  with the column names \<^verbatim>\<open>id\<close>, \<^verbatim>\<open>umap_x\<close>, \<^verbatim>\<open>umap_y\<close>, and holds exactly one row per
  node, in node-index order, which is the lexicographically sorted order of the
  identifiers.
\<close>

theorem coords_file_rows:
  assumes "main reducer a ncols df = Inr out"
  shows "\<exists>ids g. prepare a ncols df = Inr (ids, g) \<and>
           path out = out_prefix a @ ''_coords.tsv'' \<and> sep out = [CHR 0x09] \<and>
           header out = [''id'', ''umap_x'', ''umap_y''] \<and>
           map fst (body out) = ids \<and> length (body out) = length ids \<and>
           sorted ids \<and> distinct ids"
proof -
  from assms obtain p where "prepare a ncols df = Inr p"
    by (cases "prepare a ncols df") (simp_all add: main_def)
  then obtain ids g where p: "prepare a ncols df = Inr (ids, g)"
    by (cases p) simp
  with assms obtain Y where "reducer (min (umap_n_neighbors a) (k a + 1)) (seed a) g (length ids) = Inr Y"
    by (cases "reducer (min (umap_n_neighbors a) (k a + 1)) (seed a) g (length ids)")
      (simp_all add: main_def)
  with assms p have c: "coords_frame (out_prefix a) ids Y = Inr out"
    by (simp add: main_def)
  from prepare_InrD[OF p] obtain rdf :: "resolved_edge list" where "ids = all_ids rdf" by blast
  then have s: "sorted ids" "distinct ids" by (simp_all add: sorted_all_ids distinct_all_ids)
  have len: "length Y = length ids"
    using c by (cases "length Y = length ids") (simp_all add: coords_frame_def)
  with c have o: "\<lparr>path = out_prefix a @ ''_coords.tsv'', sep = [CHR 0x09],
               header = [''id'', ''umap_x'', ''umap_y''], body = zip ids Y\<rparr> = out"
    by (simp add: coords_frame_def)
  have "path out = out_prefix a @ ''_coords.tsv''" "sep out = [CHR 0x09]"
    "header out = [''id'', ''umap_x'', ''umap_y'']" "body out = zip ids Y"
    unfolding o[symmetric] by simp_all
  moreover from this(4) len have "map fst (body out) = ids" "length (body out) = length ids"
    by simp_all
  ultimately show ?thesis using p s by blast
qed

theorem coords_file_rows_witness:
  "main origin_reducer example_args 8 example_df =
     Inr \<lparr>path = ''umap_coords.tsv'', sep = [CHR 0x09], header = [''id'', ''umap_x'', ''umap_y''],
          body = [(''A'', 0, 0), (''B'', 0, 0), (''C'', 0, 0)]\<rparr> \<and>
   (\<exists>ids g. prepare example_args 8 example_df = Inr (ids, g) \<and>
      map fst [(''A'', 0::int, 0::int), (''B'', 0, 0), (''C'', 0, 0)] = ids \<and> sorted ids \<and> distinct ids)"
proof -
  have m: "main origin_reducer example_args 8 example_df =
     Inr \<lparr>path = ''umap_coords.tsv'', sep = [CHR 0x09], header = [''id'', ''umap_x'', ''umap_y''],
          body = [(''A'', 0, 0), (''B'', 0, 0), (''C'', 0, 0)]\<rparr>"
    unfolding main_def example_prepare
    by (simp add: example_ids_def origin_reducer_def coords_frame_def example_args_def
        numeral_3_eq_3)
  from coords_file_rows[OF m] show ?thesis unfolding m by simp
qed

theorem header_names_counterexample:
  "map_sum id header (main origin_reducer example_args 8 example_df) = Inr [''id'', ''umap_x'', ''umap_y''] \<and>
   map_sum id header (main origin_reducer example_args 8 example_df) \<noteq> Inr [''id'', ''x'', ''y'']"
  unfolding main_def example_prepare
  by (simp add: example_ids_def origin_reducer_def coords_frame_def example_args_def)

subsection \<open>C8: no resolvable edge\<close>

text \<open>
  C8, as the code has it: the run is not aborted before the embedding step. The code has
  no check for an empty node set: when no edge is resolvable, the neighbor count passes
  the assertion and numpy accepts the shape \<open>(0, K + 1)\<close>, the pipeline reaches the
  embedding call without an error, with an empty node list and arrays of zero rows, and
  the outcome of the run is decided by what the embedding step does with them. When
  the embedding step refuses them, the run ends in that error and no file is written.
\<close>

theorem empty_node_set_reaches_embedding:
  assumes "resolve ncols df = Inr []" and "umap_n_neighbors a \<le> k a + 1" and "- 1 \<le> k a"
    and "4 * (k a + 1) \<le> max_intp"
  shows "prepare a ncols df = Inr ([], \<lparr>indices = [], dists = []\<rparr>) \<and>
         main reducer a ncols df =
           (case reducer (min (umap_n_neighbors a) (k a + 1)) (seed a) \<lparr>indices = [], dists = []\<rparr> 0 of
              Inl e \<Rightarrow> Inl e
            | Inr Y \<Rightarrow> coords_frame (out_prefix a) [] Y) \<and>
         (\<forall>e. reducer (min (umap_n_neighbors a) (k a + 1)) (seed a) \<lparr>indices = [], dists = []\<rparr> 0 = Inl e \<longrightarrow>
              main reducer a ncols df = Inl e)"
proof -
  have e: "all_ids ([] :: resolved_edge list) = []" by (simp add: all_ids_def)
  have fits: "\<not> too_big 0 (k a + 1)"
    by (rule not_too_big_empty) (use assms(4) in simp)
  have "neighbor_graph (k a) [] (top_k a []) = \<lparr>indices = [], dists = []\<rparr>"
    by (simp add: neighbor_graph_def)
  with assms(3) fits have "assemble a [] = Inr ([], \<lparr>indices = [], dists = []\<rparr>)"
    unfolding assemble_eq by (simp add: e)
  with assms(1,2) have p: "prepare a ncols df = Inr ([], \<lparr>indices = [], dists = []\<rparr>)"
    by (simp add: prepare_def)
  then show ?thesis by (simp add: main_def)
qed

text \<open>
  With an embedding step that refuses an input without samples, the run on a frame
  without any resolvable edge ends in the error of the embedding step.
\<close>

theorem empty_node_set_reaches_embedding_witness:
  "resolve 7 no_signal_df = Inr [] \<and> umap_n_neighbors example_args \<le> k example_args + 1 \<and>
   - 1 \<le> k example_args \<and> 4 * (k example_args + 1) \<le> max_intp \<and>
   prepare example_args 7 no_signal_df = Inr ([], \<lparr>indices = [], dists = []\<rparr>) \<and>
   strict_reducer (min (umap_n_neighbors example_args) (k example_args + 1)) (seed example_args)
     \<lparr>indices = [], dists = []\<rparr> 0 = Inl EmbeddingFailed \<and>
   main strict_reducer example_args 7 no_signal_df = Inl EmbeddingFailed"
proof -
  have r: "resolve 7 no_signal_df = Inr []"
    by (simp add: resolve_def tm_column_def has_alntmscore_def has_score_def has_evalue_def
        no_signal_df_def candidates_def row_max_def ev_valid_def)
  have u: "umap_n_neighbors example_args \<le> k example_args + 1" and kk: "- 1 \<le> k example_args"
    and sz: "4 * (k example_args + 1) \<le> max_intp"
    by (simp_all add: example_args_def max_intp_def)
  have f: "strict_reducer (min (umap_n_neighbors example_args) (k example_args + 1)) (seed example_args)
     \<lparr>indices = [], dists = []\<rparr> 0 = Inl EmbeddingFailed"
    by (simp add: strict_reducer_def)
  from empty_node_set_reaches_embedding[OF r u kk sz, of strict_reducer] f
  have "prepare example_args 7 no_signal_df = Inr ([], \<lparr>indices = [], dists = []\<rparr>) \<and>
        main strict_reducer example_args 7 no_signal_df = Inl EmbeddingFailed"
    by blast
  with r u kk sz f show ?thesis by blast
qed

text \<open>
  The claim as stated fails: on a frame without any resolvable edge the pipeline reaches
  the embedding call without an error.
\<close>

theorem no_abort_on_empty_node_set_counterexample:
  "resolve 7 no_signal_df = Inr [] \<and>
   prepare example_args 7 no_signal_df = Inr ([], \<lparr>indices = [], dists = []\<rparr>)"
  by code_simp

subsection \<open>C2: node set and index assignment\<close>

text \<open>
  C2, as the code has it: the node set is built after the unresolved records have been
  dropped (line 74 precedes line 77). It is the lexicographically sorted union of the
  identifiers in the query or target role of the records of the input whose \<^verbatim>\<open>tm\<close> cell
  is not null, with self-edges and edges below the threshold still counted; an
  identifier that occurs only on records whose similarity is not resolved is not a node.
  The index assignment is a bijection from that sorted set onto \<open>[0, N)\<close> that sends each
  identifier to its position.
\<close>

theorem node_index_bijection:
  assumes "prepare a ncols df = Inr (ids, g)"
  shows "set ids = query ` set (resolved_records ncols df) \<union> target ` set (resolved_records ncols df) \<and>
         sorted ids \<and> distinct ids \<and>
         bij_betw (\<lambda>s. the (id2ix ids s)) (set ids) {0..<length ids} \<and>
         (\<forall>i<length ids. id2ix ids (ids ! i) = Some i)"
proof -
  from prepare_InrD[OF assms] obtain rdf where r: "resolve ncols df = Inr rdf" "ids = all_ids rdf"
    by blast
  have d: "distinct ids" and s: "sorted ids"
    by (simp_all add: r(2) distinct_all_ids sorted_all_ids)
  from resolve_kept[OF r(1)]
  have "set (map query rdf) = set (map query (resolved_records ncols df))"
    and "set (map target rdf) = set (map target (resolved_records ncols df))"
    by simp_all
  then have st: "set ids = query ` set (resolved_records ncols df) \<union> target ` set (resolved_records ncols df)"
    by (simp add: r(2) set_all_ids)
  have nth: "\<forall>i<length ids. id2ix ids (ids ! i) = Some i"
    using id2ix_nth[OF d] by simp
  have "bij_betw (\<lambda>s. the (id2ix ids s)) (set ids) {0..<length ids}"
  proof (rule bij_betw_byWitness[where f' = "\<lambda>i. ids ! i"])
    show "\<forall>s\<in>set ids. ids ! the (id2ix ids s) = s"
      using nth by (auto simp: in_set_conv_nth)
    show "\<forall>i\<in>{0..<length ids}. the (id2ix ids (ids ! i)) = i"
      using nth by simp
    show "(\<lambda>s. the (id2ix ids s)) ` set ids \<subseteq> {0..<length ids}"
      using nth by (auto simp: in_set_conv_nth)
    show "(\<lambda>i. ids ! i) ` {0..<length ids} \<subseteq> set ids"
      by auto
  qed
  with st s d nth show ?thesis by blast
qed

text \<open>
  In \<open>unresolved_df\<close> the record X-Y has a null \<^verbatim>\<open>tm\<close> and the record A-B has not: the
  records kept are the record A-B alone, and the nodes are A and B.
\<close>

theorem node_index_bijection_witness:
  "prepare example_args 8 unresolved_df =
     Inr ([''A'', ''B''],
          \<lparr>indices = [[0, 1, - 1], [1, - 1, - 1]],
           dists = [[Fin 0, Fin (1 / 10), PosInf], [Fin 0, PosInf, PosInf]]\<rparr>) \<and>
   resolved_records 8 unresolved_df =
     [\<lparr>query = ''A'', target = ''B'', evalue = None, score = None, alntmscore = Some (Fin (9 / 10))\<rparr>] \<and>
   set [''A'', ''B''] =
     query ` set (resolved_records 8 unresolved_df) \<union> target ` set (resolved_records 8 unresolved_df) \<and>
   sorted [''A'', ''B''] \<and> distinct [''A'', ''B''] \<and>
   id2ix [''A'', ''B''] ''A'' = Some 0 \<and> id2ix [''A'', ''B''] ''B'' = Some 1"
proof -
  have k: "resolved_records 8 unresolved_df =
     [\<lparr>query = ''A'', target = ''B'', evalue = None, score = None, alntmscore = Some (Fin (9 / 10))\<rparr>]"
    by (simp add: resolved_records_def row_tm_def has_alntmscore_def unresolved_df_def)
  from node_index_bijection[OF unresolved_prepare]
  have st: "set [''A'', ''B''] =
     query ` set (resolved_records 8 unresolved_df) \<union> target ` set (resolved_records 8 unresolved_df)"
    and s: "sorted [''A'', ''B'']" "distinct [''A'', ''B'']"
    and nth: "\<forall>i<length [''A'', ''B'']. id2ix [''A'', ''B''] ([''A'', ''B''] ! i) = Some i"
    by blast+
  from nth[rule_format, of 0] nth[rule_format, of 1]
  have "id2ix [''A'', ''B''] ''A'' = Some 0 \<and> id2ix [''A'', ''B''] ''B'' = Some 1"
    by simp
  with unresolved_prepare k st s show ?thesis by blast
qed

text \<open>
  The claim as stated fails: the identifiers X and Y occur only on an edge whose
  similarity is not resolved; the union over the loaded records holds them, the node
  set of the code does not.
\<close>

theorem unresolved_ids_counterexample:
  "sort (remdups (map query unresolved_df @ map target unresolved_df)) = [''A'', ''B'', ''X'', ''Y''] \<and>
   prepare example_args 8 unresolved_df =
     Inr ([''A'', ''B''],
          \<lparr>indices = [[0, 1, - 1], [1, - 1, - 1]],
           dists = [[Fin 0, Fin (1 / 10), PosInf], [Fin 0, PosInf, PosInf]]\<rparr>)"
  by code_simp

subsection \<open>C10: the target lookup\<close>

text \<open>
  C10: the node index is built from the resolved edges, and the edges that reach the
  assembler are among them. So every query and every target of a surviving edge is a
  key of the index map, the lookups of lines 102 and 103 never fail (the pipeline never
  ends in the corresponding errors), and every index entry in columns \<open>1..K\<close> that is
  not the sentinel lies in \<open>[0, N)\<close>.
\<close>

theorem target_lookup_never_fails:
  "prepare a ncols df \<noteq> Inl KeyError \<and> prepare a ncols df \<noteq> Inl CannotConvertNaN \<and>
   (\<forall>rdf e. resolve ncols df = Inr rdf \<and> e \<in> set (top_k a rdf) \<longrightarrow>
      id2ix (all_ids rdf) (query e) \<noteq> None \<and> id2ix (all_ids rdf) (target e) \<noteq> None) \<and>
   (\<forall>ids g i j. prepare a ncols df = Inr (ids, g) \<and> i < length ids \<and> 1 \<le> j \<and> j \<le> nat (k a) \<and>
      indices g ! i ! j \<noteq> - 1 \<longrightarrow>
      0 \<le> indices g ! i ! j \<and> indices g ! i ! j < int (length ids))"
proof -
  have e: "prepare a ncols df \<noteq> Inl KeyError \<and> prepare a ncols df \<noteq> Inl CannotConvertNaN"
    using prepare_cases[of a ncols df] by auto
  have l: "id2ix (all_ids rdf) (query e) \<noteq> None \<and> id2ix (all_ids rdf) (target e) \<noteq> None"
    if "e \<in> set (top_k a rdf)" for rdf e
  proof -
    from that set_top_k[of a rdf] have "e \<in> set rdf" by auto
    then have "query e \<in> dom (id2ix (all_ids rdf))" "target e \<in> dom (id2ix (all_ids rdf))"
      by (simp_all add: dom_id2ix[OF distinct_all_ids] set_all_ids)
    then show ?thesis by auto
  qed
  have r: "0 \<le> indices g ! i ! j \<and> indices g ! i ! j < int (length ids)"
    if p: "prepare a ncols df = Inr (ids, g)" and i: "i < length ids" and j: "1 \<le> j" "j \<le> nat (k a)"
      and ns: "indices g ! i ! j \<noteq> - 1" for ids g i j
  proof -
    from graph_rows[OF p i] obtain rdf where ids: "ids = all_ids rdf"
      and len: "length (neighbors a rdf (ids ! i)) \<le> nat (k a)"
      and row: "indices g ! i =
           int i # map (nbr_ix (id2ix ids)) (neighbors a rdf (ids ! i)) @
           replicate (nat (k a) - length (neighbors a rdf (ids ! i))) (- 1)"
      by blast
    let ?nb = "neighbors a rdf (ids ! i)"
    show ?thesis
    proof (cases "j \<le> length ?nb")
      case True
      have jl: "j - 1 < length ?nb" using True j(1) by simp
      have "indices g ! i ! j = map (nbr_ix (id2ix ids)) ?nb ! (j - 1)"
        unfolding row by (rule row_nth_populated) (use True j(1) in simp_all)
      also have "\<dots> = nbr_ix (id2ix ids) (?nb ! (j - 1))"
        by (rule nth_map[OF jl])
      finally have "indices g ! i ! j = nbr_ix (id2ix ids) (?nb ! (j - 1))" .
      moreover from jl have "?nb ! (j - 1) \<in> set ?nb" by simp
      then have "target (?nb ! (j - 1)) \<in> set ids"
        unfolding ids by (rule targets_neighbors)
      ultimately show ?thesis
        using nbr_ix_range[OF _ \<open>target (?nb ! (j - 1)) \<in> set ids\<close>] distinct_all_ids[of rdf]
        by (simp add: ids)
    next
      case False
      with j(2) len have "indices g ! i ! j = - 1"
        unfolding row by (intro row_nth_sentinel) simp_all
      with ns show ?thesis by simp
    qed
  qed
  from e l r show ?thesis by blast
qed

theorem target_lookup_never_fails_witness:
  "prepare example_args 8 example_df = Inr (example_ids, example_graph) \<and>
   prepare example_args 8 example_df \<noteq> Inl KeyError \<and>
   prepare example_args 8 example_df \<noteq> Inl CannotConvertNaN \<and>
   (0::nat) < length example_ids \<and> (1::nat) \<le> 2 \<and> 2 \<le> nat (k example_args) \<and>
   indices example_graph ! 0 ! 2 \<noteq> - 1 \<and>
   0 \<le> indices example_graph ! 0 ! 2 \<and> indices example_graph ! 0 ! 2 < int (length example_ids)"
proof -
  have h: "(0::nat) < length example_ids" "(1::nat) \<le> 2" "2 \<le> nat (k example_args)"
    "indices example_graph ! 0 ! 2 \<noteq> - 1"
    by (simp_all add: example_ids_def example_args_def example_graph_def)
  from target_lookup_never_fails[of example_args 8 example_df] example_prepare h
  have "0 \<le> indices example_graph ! 0 ! 2 \<and> indices example_graph ! 0 ! 2 < int (length example_ids)"
    by blast
  moreover from target_lookup_never_fails[of example_args 8 example_df]
  have "prepare example_args 8 example_df \<noteq> Inl KeyError \<and>
        prepare example_args 8 example_df \<noteq> Inl CannotConvertNaN"
    by blast
  ultimately show ?thesis using example_prepare h by blast
qed

subsection \<open>C6: the self-loop\<close>

text \<open>
  C6: whenever the graph is assembled, it has one row per node, and in every row \<open>i\<close>
  column 0 holds index \<open>i\<close> and distance 0. No neighbor write overwrites column 0: after
  any number \<open>m\<close> of iterations of the fill loop, started from the arrays with the
  self-loops set, column 0 of every row still holds \<open>i\<close> and 0.
\<close>

theorem self_loop_invariant:
  assumes "prepare a ncols df = Inr (ids, g)"
  shows "length (indices g) = length ids \<and> length (dists g) = length ids \<and>
         (\<forall>i<length ids. indices g ! i ! 0 = int i \<and> dists g ! i ! 0 = Fin 0) \<and>
         (\<exists>rdf g0. resolve ncols df = Inr rdf \<and> init_graph (k a) (length ids) = Inr g0 \<and>
            (\<forall>m. \<exists>gm. fill_neighbors (k a) (id2ix ids) (take m (groupby_query (top_k a rdf))) g0 = Inr gm \<and>
               (\<forall>i<length ids. indices gm ! i ! 0 = int i \<and> dists gm ! i ! 0 = Fin 0)))"
proof -
  have col0: "\<forall>i<length ids. indices g ! i ! 0 = int i \<and> dists g ! i ! 0 = Fin 0"
  proof (intro allI impI)
    fix i assume i: "i < length ids"
    from graph_rows[OF assms i] obtain rdf where
      "indices g ! i =
           int i # map (nbr_ix (id2ix ids)) (neighbors a rdf (ids ! i)) @
           replicate (nat (k a) - length (neighbors a rdf (ids ! i))) (- 1)"
      "dists g ! i =
           Fin 0 # map edge_dist (neighbors a rdf (ids ! i)) @
           replicate (nat (k a) - length (neighbors a rdf (ids ! i))) PosInf"
      by blast
    then show "indices g ! i ! 0 = int i \<and> dists g ! i ! 0 = Fin 0" by simp
  qed
  from prepare_InrD[OF assms] obtain rdf where r: "resolve ncols df = Inr rdf" "ids = all_ids rdf"
    and fits: "\<not> too_big (length ids) (k a + 1)"
    and d: "(0 \<le> k a \<and> g = neighbor_graph (k a) ids (top_k a rdf)) \<or>
         (k a = - 1 \<and> rdf = [] \<and> ids = [] \<and> g = \<lparr>indices = [], dists = []\<rparr>)"
    by blast
  have loop: "\<exists>g0. init_graph (k a) (length ids) = Inr g0 \<and>
            (\<forall>m. \<exists>gm. fill_neighbors (k a) (id2ix ids) (take m (groupby_query (top_k a rdf))) g0 = Inr gm \<and>
               (\<forall>i<length ids. indices gm ! i ! 0 = int i \<and> dists gm ! i ! 0 = Fin 0))"
  proof (cases "0 \<le> k a")
    case True
    have sub: "query ` set (top_k a rdf) \<union> target ` set (top_k a rdf) \<subseteq> set ids"
      using set_top_k[of a rdf] by (auto simp: r(2) set_all_ids)
    have dist: "distinct ids" by (simp add: r(2) distinct_all_ids)
    from fill_prefix_column0[OF True dist sub] init_graph_ok[OF True fits]
    show ?thesis by blast
  next
    case False
    with d have e: "k a = - 1" "rdf = []" "ids = []" by auto
    then show ?thesis
      by (simp add: init_graph_empty top_k_Nil groupby_query_def)
  qed
  from graph_lengths[OF assms] col0 r(1) loop show ?thesis by blast
qed

theorem self_loop_invariant_witness:
  "prepare example_args 8 example_df = Inr (example_ids, example_graph) \<and>
   length (indices example_graph) = 3 \<and> length (dists example_graph) = 3 \<and>
   indices example_graph ! 0 ! 0 = 0 \<and> dists example_graph ! 0 ! 0 = Fin 0 \<and>
   indices example_graph ! 1 ! 0 = 1 \<and> dists example_graph ! 1 ! 0 = Fin 0 \<and>
   indices example_graph ! 2 ! 0 = 2 \<and> dists example_graph ! 2 ! 0 = Fin 0"
proof -
  from self_loop_invariant[OF example_prepare]
  have l: "length (indices example_graph) = length example_ids \<and>
           length (dists example_graph) = length example_ids"
    and c: "\<forall>i<length example_ids. indices example_graph ! i ! 0 = int i \<and>
              dists example_graph ! i ! 0 = Fin 0"
    by blast+
  from c[rule_format, of 0] c[rule_format, of 1] c[rule_format, of 2] l example_prepare
  show ?thesis by (simp add: example_ids_def)
qed

subsection \<open>C7: order inside a row\<close>

text \<open>
  C7: in every row of the assembled graph there is a number \<open>n \<le> K\<close> such that columns
  \<open>1..n\<close> are populated (neither sentinel), columns \<open>n+1..K\<close> hold both sentinels, and
  the distances in columns \<open>1..n\<close> are non-decreasing. So the sentinels come after all
  populated entries.
\<close>

theorem row_ordering_invariant:
  assumes "prepare a ncols df = Inr (ids, g)" and "i < length ids"
  shows "\<exists>n\<le>nat (k a).
           length (indices g ! i) = Suc (nat (k a)) \<and> length (dists g ! i) = Suc (nat (k a)) \<and>
           (\<forall>j. 1 \<le> j \<and> j \<le> n \<longrightarrow> indices g ! i ! j \<noteq> - 1 \<and> dists g ! i ! j \<noteq> PosInf) \<and>
           (\<forall>j. n < j \<and> j \<le> nat (k a) \<longrightarrow> indices g ! i ! j = - 1 \<and> dists g ! i ! j = PosInf) \<and>
           (\<forall>j j'. 1 \<le> j \<and> j \<le> j' \<and> j' \<le> n \<longrightarrow> dists g ! i ! j \<le> dists g ! i ! j')"
proof -
  from graph_rows[OF assms] obtain rdf where ids: "ids = all_ids rdf" and K: "0 \<le> k a"
    and len: "length (neighbors a rdf (ids ! i)) \<le> nat (k a)"
    and ri: "indices g ! i =
           int i # map (nbr_ix (id2ix ids)) (neighbors a rdf (ids ! i)) @
           replicate (nat (k a) - length (neighbors a rdf (ids ! i))) (- 1)"
    and rd: "dists g ! i =
           Fin 0 # map edge_dist (neighbors a rdf (ids ! i)) @
           replicate (nat (k a) - length (neighbors a rdf (ids ! i))) PosInf"
    by blast
  let ?nb = "neighbors a rdf (ids ! i)" and ?ix = "nbr_ix (id2ix ids)"
  let ?n = "length ?nb"
  have li: "length (indices g ! i) = Suc (nat (k a))" and ld: "length (dists g ! i) = Suc (nat (k a))"
    using len by (simp_all add: ri rd)
  have pi: "indices g ! i ! j = ?ix (?nb ! (j - 1))" and pd: "dists g ! i ! j = edge_dist (?nb ! (j - 1))"
    if "1 \<le> j" "j \<le> ?n" for j
  proof -
    have jl: "j - 1 < ?n" using that by simp
    have "indices g ! i ! j = map ?ix ?nb ! (j - 1)"
      unfolding ri by (rule row_nth_populated) (use that in simp_all)
    also have "\<dots> = ?ix (?nb ! (j - 1))" by (rule nth_map[OF jl])
    finally show "indices g ! i ! j = ?ix (?nb ! (j - 1))" .
    have "dists g ! i ! j = map edge_dist ?nb ! (j - 1)"
      unfolding rd by (rule row_nth_populated) (use that in simp_all)
    also have "\<dots> = edge_dist (?nb ! (j - 1))" by (rule nth_map[OF jl])
    finally show "dists g ! i ! j = edge_dist (?nb ! (j - 1))" .
  qed
  have pop: "indices g ! i ! j \<noteq> - 1 \<and> dists g ! i ! j \<noteq> PosInf" if j: "1 \<le> j" "j \<le> ?n" for j
  proof -
    have "?nb ! (j - 1) \<in> set ?nb" using j by simp
    then have "target (?nb ! (j - 1)) \<in> set ids"
      unfolding ids by (rule targets_neighbors)
    from nbr_ix_range[OF _ this] distinct_all_ids[of rdf]
    have "0 \<le> ?ix (?nb ! (j - 1))" by (simp add: ids)
    then show ?thesis using pi[OF j] pd[OF j] edge_dist_finite by simp
  qed
  have sen: "indices g ! i ! j = - 1 \<and> dists g ! i ! j = PosInf" if j: "?n < j" "j \<le> nat (k a)" for j
  proof
    show "indices g ! i ! j = - 1"
      unfolding ri by (rule row_nth_sentinel) (use j len in simp_all)
    show "dists g ! i ! j = PosInf"
      unfolding rd by (rule row_nth_sentinel) (use j len in simp_all)
  qed
  have ord: "dists g ! i ! j \<le> dists g ! i ! j'" if j: "1 \<le> j" "j \<le> j'" "j' \<le> ?n" for j j'
  proof -
    have jl: "j - 1 < ?n" "j' - 1 < ?n" "j - 1 \<le> j' - 1" using j by simp_all
    have a: "dists g ! i ! j = map edge_dist ?nb ! (j - 1)"
      using pd[of j] j nth_map[OF jl(1), of edge_dist] by simp
    have b: "dists g ! i ! j' = map edge_dist ?nb ! (j' - 1)"
      using pd[of j'] j nth_map[OF jl(2), of edge_dist] by simp
    have "map edge_dist ?nb ! (j - 1) \<le> map edge_dist ?nb ! (j' - 1)"
      by (rule sorted_nth_mono[OF sorted_edge_dist_neighbors[OF K] jl(3)]) (use jl in simp)
    then show ?thesis unfolding a b .
  qed
  from len li ld pop sen ord show ?thesis by blast
qed

theorem row_ordering_invariant_witness:
  "prepare example_args 8 example_df = Inr (example_ids, example_graph) \<and>
   (0::nat) < length example_ids \<and>
   length (indices example_graph ! 0) = 3 \<and> length (dists example_graph ! 0) = 3 \<and>
   dists example_graph ! 0 ! 1 \<le> dists example_graph ! 0 ! 2 \<and>
   indices example_graph ! 1 ! 2 = - 1 \<and> dists example_graph ! 1 ! 2 = PosInf"
proof -
  have i: "(0::nat) < length example_ids" by (simp add: example_ids_def)
  from row_ordering_invariant[OF example_prepare i]
  have "length (indices example_graph ! 0) = Suc (nat (k example_args)) \<and>
        length (dists example_graph ! 0) = Suc (nat (k example_args))"
    by blast
  then show ?thesis
    using example_prepare i by (simp add: example_args_def example_graph_def)
qed

subsection \<open>C3: ranking and the columns of a row\<close>

text \<open>
  C3: for the row of every node, the edges of that query that survive the filters are
  ranked by a stable sort on \<^verbatim>\<open>tm\<close> descending: the ranked list is ordered by decreasing
  \<^verbatim>\<open>tm\<close>, and for each value of \<^verbatim>\<open>tm\<close> the edges holding it appear in the order they had
  in the input. The first \<open>K\<close> edges of the ranked list are exactly what columns
  \<open>1..\<close> of the row hold, in that order; the remaining columns hold the sentinels.
\<close>

theorem stable_ranking_fills_row:
  assumes "prepare a ncols df = Inr (ids, g)" and "resolve ncols df = Inr rdf"
    and "i < length ids"
  shows "let grp = group_rows (ids ! i) (filter_edges (min_tm a) rdf);
             ranked = group_rows (ids ! i) (sort_values (filter_edges (min_tm a) rdf));
             top = take (nat (k a)) ranked
         in sorted_wrt (\<lambda>x y. tm y \<le> tm x) ranked \<and>
            (\<forall>t. filter (\<lambda>e. tm e = t) ranked = filter (\<lambda>e. tm e = t) grp) \<and>
            length ranked = length grp \<and>
            indices g ! i =
              int i # map (nbr_ix (id2ix ids)) top @ replicate (nat (k a) - length top) (- 1) \<and>
            dists g ! i =
              Fin 0 # map edge_dist top @ replicate (nat (k a) - length top) PosInf"
proof -
  let ?grp = "group_rows (ids ! i) (filter_edges (min_tm a) rdf)"
  let ?ranked = "group_rows (ids ! i) (sort_values (filter_edges (min_tm a) rdf))"
  from graph_rows[OF assms(1,3)] obtain rdf' where r': "resolve ncols df = Inr rdf'"
    and K: "0 \<le> k a"
    and ri: "indices g ! i =
           int i # map (nbr_ix (id2ix ids)) (neighbors a rdf' (ids ! i)) @
           replicate (nat (k a) - length (neighbors a rdf' (ids ! i))) (- 1)"
    and rd: "dists g ! i =
           Fin 0 # map edge_dist (neighbors a rdf' (ids ! i)) @
           replicate (nat (k a) - length (neighbors a rdf' (ids ! i))) PosInf"
    by blast
  from r' assms(2) have eq: "rdf' = rdf" by simp
  have rk: "?ranked = sort_key (\<lambda>e. fneg (tm e)) ?grp"
    by (rule group_rows_sort_values)
  have nb: "neighbors a rdf (ids ! i) = take (nat (k a)) ?ranked"
    by (simp add: neighbors_eq[OF K] rk)
  have "sorted (map (\<lambda>e. fneg (tm e)) ?ranked)"
    unfolding rk by (rule sorted_sort_key)
  then have s: "sorted_wrt (\<lambda>x y. tm y \<le> tm x) ?ranked"
    by (simp add: sorted_map fneg_le_iff)
  have st: "filter (\<lambda>e. tm e = t) ?ranked = filter (\<lambda>e. tm e = t) ?grp" for t
    using sort_key_stable[of "\<lambda>e. fneg (tm e)" "fneg t" ?grp]
    by (simp add: rk fneg_eq_iff)
  have l: "length ?ranked = length ?grp" by (simp add: rk)
  from s st l ri rd show ?thesis
    unfolding Let_def eq nb by blast
qed

theorem stable_ranking_fills_row_witness:
  "prepare example_args 8 example_df = Inr (example_ids, example_graph) \<and>
   resolve 8 example_df = Inr example_rdf \<and> (0::nat) < length example_ids \<and>
   indices example_graph ! 0 =
     0 # map (nbr_ix (id2ix example_ids))
           (take 2 (group_rows ''A'' (sort_values (filter_edges (Some (Fin 0)) example_rdf)))) @
         replicate (2 - length (take 2 (group_rows ''A'' (sort_values (filter_edges (Some (Fin 0)) example_rdf))))) (- 1) \<and>
   indices example_graph ! 0 = [0, 1, 2]"
proof -
  have i: "(0::nat) < length example_ids" by (simp add: example_ids_def)
  from stable_ranking_fills_row[OF example_prepare example_resolve i]
  have "indices example_graph ! 0 =
     int 0 # map (nbr_ix (id2ix example_ids))
           (take (nat (k example_args)) (group_rows (example_ids ! 0) (sort_values (filter_edges (min_tm example_args) example_rdf)))) @
         replicate (nat (k example_args) - length (take (nat (k example_args)) (group_rows (example_ids ! 0) (sort_values (filter_edges (min_tm example_args) example_rdf))))) (- 1)"
    unfolding Let_def by blast
  moreover have "nat (k example_args) = 2" "min_tm example_args = Some (Fin 0)" "example_ids ! 0 = ''A''"
    by (simp_all add: example_args_def example_ids_def)
  moreover have "indices example_graph ! 0 = [0, 1, 2]" by (simp add: example_graph_def)
  ultimately show ?thesis using example_prepare example_resolve i by simp
qed

subsection \<open>C4: repeated pairs\<close>

text \<open>
  C4, as the code has it: neighbors are not deduplicated. Each of the retained records
  of a query fills one neighbor column, so the populated entries of a row are the
  target indices of those records, one per record, and they are pairwise distinct exactly
  when the targets of the retained records of that query are pairwise distinct.
\<close>

theorem neighbors_one_per_record:
  assumes "prepare a ncols df = Inr (ids, g)" and "resolve ncols df = Inr rdf"
    and "i < length ids"
  shows "filter (\<lambda>j. j \<noteq> - 1) (tl (indices g ! i)) =
           map (nbr_ix (id2ix ids)) (neighbors a rdf (ids ! i)) \<and>
         (distinct (filter (\<lambda>j. j \<noteq> - 1) (tl (indices g ! i))) \<longleftrightarrow>
          distinct (map target (neighbors a rdf (ids ! i))))"
proof -
  from graph_rows[OF assms(1,3)] obtain rdf' where r': "resolve ncols df = Inr rdf'"
    and ids: "ids = all_ids rdf'"
    and ri: "indices g ! i =
           int i # map (nbr_ix (id2ix ids)) (neighbors a rdf' (ids ! i)) @
           replicate (nat (k a) - length (neighbors a rdf' (ids ! i))) (- 1)"
    by blast
  from r' assms(2) have eq: "rdf' = rdf" by simp
  let ?nb = "neighbors a rdf (ids ! i)"
  have d: "distinct ids" by (simp add: ids distinct_all_ids)
  have tg: "set (map target ?nb) \<subseteq> set ids"
    using targets_neighbors[of _ a rdf "ids ! i"] by (auto simp: ids eq)
  have "\<forall>v\<in>set (map (nbr_ix (id2ix ids)) ?nb). v \<noteq> - 1"
  proof
    fix v assume "v \<in> set (map (nbr_ix (id2ix ids)) ?nb)"
    then obtain e where e: "e \<in> set ?nb" "v = nbr_ix (id2ix ids) e" by auto
    from e(1) tg have "target e \<in> set ids" by auto
    from nbr_ix_range[OF d this] e(2) show "v \<noteq> - 1" by simp
  qed
  then have f: "filter (\<lambda>j. j \<noteq> - 1) (tl (indices g ! i)) = map (nbr_ix (id2ix ids)) ?nb"
    unfolding ri eq by (rule filter_populated)
  have m: "map (nbr_ix (id2ix ids)) ?nb = map (\<lambda>s. int (the (id2ix ids s))) (map target ?nb)"
    by (simp add: nbr_ix_def)
  have "distinct (map (\<lambda>s. int (the (id2ix ids s))) (map target ?nb)) \<longleftrightarrow>
                 distinct (map target ?nb)"
    using inj_on_subset[OF inj_on_index[OF d] tg] by (simp only: distinct_map) simp
  then have "distinct (map (nbr_ix (id2ix ids)) ?nb) \<longleftrightarrow> distinct (map target ?nb)"
    unfolding m .
  then show ?thesis unfolding f by (intro conjI refl)
qed

theorem neighbors_one_per_record_witness:
  "prepare example_args 8 example_df = Inr (example_ids, example_graph) \<and>
   resolve 8 example_df = Inr example_rdf \<and> (0::nat) < length example_ids \<and>
   filter (\<lambda>j. j \<noteq> - 1) (tl (indices example_graph ! 0)) =
     map (nbr_ix (id2ix example_ids)) (neighbors example_args example_rdf (example_ids ! 0)) \<and>
   distinct (map target (neighbors example_args example_rdf (example_ids ! 0)))"
proof -
  have i: "(0::nat) < length example_ids" by (simp add: example_ids_def)
  have "distinct (filter (\<lambda>j. j \<noteq> - 1) (tl (indices example_graph ! 0)))"
    by (simp add: example_graph_def)
  with neighbors_one_per_record[OF example_prepare example_resolve i]
    example_prepare example_resolve i
  show ?thesis by blast
qed

text \<open>
  The claim as stated fails when the input holds the pair A-B twice: both records are
  retained and the row of A holds the index of B in two columns.
\<close>

theorem duplicate_pair_counterexample:
  "prepare example_args 8 duplicate_df =
     Inr ([''A'', ''B''],
          \<lparr>indices = [[0, 1, 1], [1, - 1, - 1]],
           dists = [[Fin 0, Fin (1 / 10), Fin (2 / 10)], [Fin 0, PosInf, PosInf]]\<rparr>) \<and>
   [0, 1, 1 :: int] ! 1 = [0, 1, 1] ! 2 \<and> [0, 1, 1 :: int] ! 1 \<noteq> - 1"
  by code_simp

end
